theory Spec2Isabelle
  imports Main "HOL-Library.Word"
begin

section \<open>JavaScript values, errors and strings\<close>

text \<open>
  A JavaScript string is a sequence of UTF-16 code units. The literals of the source are
  ASCII, written here with \<open>str\<close> and \<open>cu\<close>.
\<close>

type_synonym codeunit = "16 word"

type_synonym jsstring = "codeunit list"

definition cu :: "char \<Rightarrow> codeunit" where
  "cu c = of_nat (of_char c)"

definition str :: "string \<Rightarrow> jsstring" where
  "str s = map cu s"

text \<open>
  The sanitizer of the personality quiz (\<^verbatim>\<open>sanitizeParameters\<close> and its helpers) works on
  the parameters that the editor stores as JSON. A field read from such an object is a JSON
  value, or \<^verbatim>\<open>undefined\<close> when the key is missing. Numbers are only ever tested for
  being zero by the code modelled here, so an integer stands for them. An object is the
  list of its own properties, each key once.
\<close>

datatype jsval =
    JUndefined
  | JNull
  | JBool bool
  | JNum int
  | JStr jsstring
  | JArr "jsval list"
  | JObj "(jsstring \<times> jsval) list"

text \<open>
  Calling a method that a value does not have (\<^verbatim>\<open>trim\<close>, \<^verbatim>\<open>toLowerCase\<close> on anything but
  a string) or reading a property of \<^verbatim>\<open>undefined\<close> or \<^verbatim>\<open>null\<close> throws a TypeError.
\<close>

datatype error = TypeError

text \<open>\<^verbatim>\<open>!v\<close> is false exactly for the truthy values.\<close>

fun truthy :: "jsval \<Rightarrow> bool" where
  "truthy JUndefined = False"
| "truthy JNull = False"
| "truthy (JBool b) = b"
| "truthy (JNum n) = (n \<noteq> 0)"
| "truthy (JStr s) = (s \<noteq> [])"
| "truthy (JArr xs) = True"
| "truthy (JObj kvs) = True"

text \<open>The property read \<^verbatim>\<open>v.length\<close>.\<close>

fun getLength :: "jsval \<Rightarrow> error + jsval" where
  "getLength JUndefined = Inl TypeError"
| "getLength JNull = Inl TypeError"
| "getLength (JBool b) = Inr JUndefined"
| "getLength (JNum n) = Inr JUndefined"
| "getLength (JStr s) = Inr (JNum (int (length s)))"
| "getLength (JArr xs) = Inr (JNum (int (length xs)))"
| "getLength (JObj kvs) =
     Inr (case map_of kvs (str ''length'') of None \<Rightarrow> JUndefined | Some v \<Rightarrow> v)"

text \<open>
  \<^verbatim>\<open>String.prototype.trim\<close> strips the white space and the line terminators of ECMAScript
  from both ends: TAB, LF, VT, FF, CR, SPACE, NO-BREAK SPACE, OGHAM SPACE MARK, the spaces
  U+2000 to U+200A, LINE SEPARATOR, PARAGRAPH SEPARATOR, NARROW NO-BREAK SPACE, MEDIUM
  MATHEMATICAL SPACE, IDEOGRAPHIC SPACE and the BYTE ORDER MARK. Each is one code unit.
\<close>

definition isWhiteSpace :: "codeunit \<Rightarrow> bool" where
  "isWhiteSpace c =
     (c \<in> set [0x0009, 0x000A, 0x000B, 0x000C, 0x000D, 0x0020, 0x00A0, 0x1680,
               0x2000, 0x2001, 0x2002, 0x2003, 0x2004, 0x2005, 0x2006, 0x2007, 0x2008,
               0x2009, 0x200A, 0x2028, 0x2029, 0x202F, 0x205F, 0x3000, 0xFEFF])"

definition trim :: "jsstring \<Rightarrow> jsstring" where
  "trim s = rev (dropWhile isWhiteSpace (rev (dropWhile isWhiteSpace s)))"

text \<open>
  \<^verbatim>\<open>String.prototype.toLowerCase\<close> follows the case mappings of the Unicode standard, tables
  that are no part of this program. It is the parameter \<open>toLowerCase\<close> of every function
  below that calls it: what is proved of them holds whatever these tables say.

  The method calls \<^verbatim>\<open>v.trim()\<close> and \<^verbatim>\<open>v.toLowerCase()\<close> on an arbitrary value.
\<close>

fun callTrim :: "jsval \<Rightarrow> error + jsstring" where
  "callTrim (JStr s) = Inr (trim s)"
| "callTrim v = Inl TypeError"

fun callToLowerCase :: "(jsstring \<Rightarrow> jsstring) \<Rightarrow> jsval \<Rightarrow> error + jsstring" where
  "callToLowerCase toLowerCase (JStr s) = Inr (toLowerCase s)"
| "callToLowerCase toLowerCase v = Inl TypeError"

text \<open>
  \<^verbatim>\<open>s.split(sep)\<close> with a one-character separator: the pieces between the separators, one
  more than there are separators (so the empty string gives one empty piece).
\<close>

fun split :: "codeunit \<Rightarrow> jsstring \<Rightarrow> jsstring list" where
  "split sep [] = [[]]"
| "split sep (c # cs) =
     (if c = sep then [] # split sep cs
      else (case split sep cs of [] \<Rightarrow> [[c]] | t # ts \<Rightarrow> (c # t) # ts))"

text \<open>\<^verbatim>\<open>xs.join(sep)\<close> on an array of strings.\<close>

fun join :: "jsstring \<Rightarrow> jsstring list \<Rightarrow> jsstring" where
  "join sep [] = []"
| "join sep [x] = x"
| "join sep (x # y # ys) = x @ sep @ join sep (y # ys)"

text \<open>
  The test \<^verbatim>\<open>value.match(/=-?\d+$/)\<close>: the search tries every start position from the
  left; at a position the pattern wants an equals sign, an optional minus sign and then one
  or more of the digits 0 to 9 up to the end of the string.
\<close>

definition isDigit :: "codeunit \<Rightarrow> bool" where
  "isDigit c = (c \<in> set (str ''0123456789''))"

definition digits1 :: "jsstring \<Rightarrow> bool" where
  "digits1 s = (s \<noteq> [] \<and> list_all isDigit s)"

fun signedInt :: "jsstring \<Rightarrow> bool" where
  "signedInt [] = False"
| "signedInt (c # cs) = (if c = cu CHR ''-'' then digits1 cs else digits1 (c # cs))"

fun matchScore :: "jsstring \<Rightarrow> bool" where
  "matchScore [] = False"
| "matchScore (c # cs) = ((c = cu CHR ''='' \<and> signedInt cs) \<or> matchScore cs)"

text \<open>\<^verbatim>\<open>xs.map(f)\<close> and \<^verbatim>\<open>xs.reduce(f, acc)\<close> with a callback that may throw: the first
  exception ends the loop.\<close>

fun mapE :: "('a \<Rightarrow> error + 'b) \<Rightarrow> 'a list \<Rightarrow> error + 'b list" where
  "mapE f [] = Inr []"
| "mapE f (x # xs) =
     (case f x of
        Inl e \<Rightarrow> Inl e
      | Inr y \<Rightarrow> (case mapE f xs of Inl e \<Rightarrow> Inl e | Inr ys \<Rightarrow> Inr (y # ys)))"

fun reduceE :: "('b \<Rightarrow> 'a \<Rightarrow> error + 'b) \<Rightarrow> 'b \<Rightarrow> 'a list \<Rightarrow> error + 'b" where
  "reduceE f acc [] = Inr acc"
| "reduceE f acc (x # xs) =
     (case f acc x of Inl e \<Rightarrow> Inl e | Inr acc' \<Rightarrow> reduceE f acc' xs)"

text \<open>\<^verbatim>\<open>xs.filter((x) => x !== null)\<close> on the results of \<^verbatim>\<open>sanitizePersonalityOption\<close>.\<close>

fun dropNulls :: "'a option list \<Rightarrow> 'a list" where
  "dropNulls [] = []"
| "dropNulls (None # xs) = dropNulls xs"
| "dropNulls (Some x # xs) = x # dropNulls xs"

section \<open>The parameters\<close>

text \<open>
  A personality, an answer option and a question carry more fields than the sanitizer looks
  at (description, image and so on); they are the extension part of the records. The raw
  parameters hold the lists under \<^verbatim>\<open>personalitiesGroup.personalities\<close> and
  \<^verbatim>\<open>questionsGroup.questions\<close>, the sanitized ones under \<^verbatim>\<open>personalities\<close> and
  \<^verbatim>\<open>questions\<close>.
\<close>

record personality =
  name :: jsval

record answer =
  "text" :: jsval
  personality :: jsval

record 'a question =
  answers :: "'a list"

record ('p, 'q) rawParams =
  personalitiesGroup :: "'p list"
  questionsGroup :: "'q list"

record ('p, 'q) params =
  personalities :: "'p list"
  questions :: "'q list"

section \<open>The sanitizer\<close>

text \<open>
  The callback of the \<^verbatim>\<open>reduce\<close> in \<^verbatim>\<open>sanitizeParameters\<close>: an entry without a name is
  skipped, the name is trimmed (the assignment changes the entry itself), and the entry is
  appended unless an entry of that very name is in the results already.
\<close>

definition personalityStep ::
  "'a personality_scheme list \<Rightarrow> 'a personality_scheme \<Rightarrow> error + 'a personality_scheme list"
where
  "personalityStep results p =
     (if \<not> truthy (name p) then Inr results
      else case getLength (name p) of
        Inl e \<Rightarrow> Inl e
      | Inr l \<Rightarrow>
          if l = JNum 0 then Inr results
          else case callTrim (name p) of
            Inl e \<Rightarrow> Inl e
          | Inr n \<Rightarrow>
              let p' = p\<lparr>name := JStr n\<rparr> in
              if list_ex (\<lambda>result. name result = name p') results then Inr results
              else Inr (results @ [p']))"

text \<open>The first statement of \<^verbatim>\<open>sanitizeParameters\<close>: the \<^verbatim>\<open>reduce\<close> over
  \<^verbatim>\<open>personalitiesGroup.personalities\<close>, starting from the empty array.\<close>

definition sanitizePersonalities ::
  "'a personality_scheme list \<Rightarrow> error + 'a personality_scheme list"
where
  "sanitizePersonalities raw = reduceE personalityStep [] raw"

text \<open>\<^verbatim>\<open>isPersonalityNameValid\<close>: \<^verbatim>\<open>some\<close> stops at the first personality that matches.\<close>

fun isPersonalityNameValid ::
  "(jsstring \<Rightarrow> jsstring) \<Rightarrow> 'a personality_scheme list \<Rightarrow> jsstring \<Rightarrow> error + bool"
where
  "isPersonalityNameValid toLowerCase [] value = Inr False"
| "isPersonalityNameValid toLowerCase (p # ps) value =
     (case callToLowerCase toLowerCase (name p) of
        Inl e \<Rightarrow> Inl e
      | Inr n \<Rightarrow> if n = value then Inr True else isPersonalityNameValid toLowerCase ps value)"

text \<open>
  The first statement of \<^verbatim>\<open>sanitizePersonalityOption\<close>, which splits the token into name
  and score, and then the rest of the function: the name is trimmed and lower-cased, looked
  up, and printed with the score. The score \<^verbatim>\<open>1\<close> of the second branch is a number in the
  source; the template literal at the end prints it as the string \<^verbatim>\<open>1\<close>.
\<close>

definition parseOption :: "jsstring \<Rightarrow> jsstring \<times> jsstring" where
  "parseOption value =
     (if matchScore value then
        (let segments = split (cu CHR ''='') value;
             score = last segments;
             segments' = butlast segments
         in (join (str ''='') segments', score))
      else (value, str ''1''))"

definition sanitizePersonalityOption ::
  "(jsstring \<Rightarrow> jsstring) \<Rightarrow> 'a personality_scheme list \<Rightarrow> jsstring \<Rightarrow> error + jsstring option"
where
  "sanitizePersonalityOption toLowerCase ps value =
     (let (name0, score) = parseOption value;
          name1 = toLowerCase (trim name0)
      in case isPersonalityNameValid toLowerCase ps name1 of
           Inl e \<Rightarrow> Inl e
         | Inr valid \<Rightarrow>
             if \<not> valid then Inr None else Inr (Some (name1 @ str ''='' @ score)))"

text \<open>\<^verbatim>\<open>sanitizeOptionPersonalities\<close>: a value that is not a string gives the empty
  string; a string is split at the commas, every piece is sanitized, the \<^verbatim>\<open>null\<close> results
  are left out and the rest is joined with commas. \<^verbatim>\<open>filterAnswers\<close> stores the result in
  every answer and keeps the answers whose result is not the empty string.\<close>

definition sanitizeOptionPersonalities ::
  "(jsstring \<Rightarrow> jsstring) \<Rightarrow> 'a personality_scheme list \<Rightarrow> jsval \<Rightarrow> error + jsstring"
where
  "sanitizeOptionPersonalities toLowerCase ps v =
     (case v of
        JStr s \<Rightarrow>
          (case mapE (sanitizePersonalityOption toLowerCase ps) (split (cu CHR '','') s) of
             Inl e \<Rightarrow> Inl e
           | Inr rs \<Rightarrow> Inr (join (str '','') (dropNulls rs)))
      | _ \<Rightarrow> Inr [])"

definition filterAnswers ::
  "(jsstring \<Rightarrow> jsstring) \<Rightarrow> 'a personality_scheme list \<Rightarrow> 'b answer_scheme list
     \<Rightarrow> error + 'b answer_scheme list"
where
  "filterAnswers toLowerCase ps as =
     (case mapE (\<lambda>a. case sanitizeOptionPersonalities toLowerCase ps (personality a) of
                       Inl e \<Rightarrow> Inl e
                     | Inr s \<Rightarrow> Inr (a\<lparr>personality := JStr s\<rparr>)) as of
        Inl e \<Rightarrow> Inl e
      | Inr as' \<Rightarrow> Inr (filter (\<lambda>a. personality a \<noteq> JStr []) as'))"

text \<open>The placeholder \<^verbatim>\<open>'\u3164'\<close> (HANGUL FILLER), one code unit.\<close>

definition placeholder :: jsstring where
  "placeholder = [0x3164]"

text \<open>\<^verbatim>\<open>option.text = option.text ?? '\u3164'\<close>: only \<^verbatim>\<open>undefined\<close> and \<^verbatim>\<open>null\<close> are
  replaced.\<close>

definition defaultText :: "'b answer_scheme \<Rightarrow> 'b answer_scheme" where
  "defaultText option =
     option\<lparr>text := (if text option = JUndefined \<or> text option = JNull
                      then JStr placeholder else text option)\<rparr>"

text \<open>
  The second statement of \<^verbatim>\<open>sanitizeParameters\<close>: the callback of the \<^verbatim>\<open>map\<close> over
  \<^verbatim>\<open>questionsGroup.questions\<close>, which filters the answers of a question and gives those
  left their text, and then the \<^verbatim>\<open>filter\<close> that keeps the questions with an answer.
\<close>

definition sanitizeQuestion ::
  "(jsstring \<Rightarrow> jsstring) \<Rightarrow> 'a personality_scheme list
     \<Rightarrow> ('b answer_scheme, 'c) question_scheme
     \<Rightarrow> error + ('b answer_scheme, 'c) question_scheme"
where
  "sanitizeQuestion toLowerCase ps q =
     (case filterAnswers toLowerCase ps (answers q) of
        Inl e \<Rightarrow> Inl e
      | Inr as \<Rightarrow> Inr (q\<lparr>answers := map defaultText as\<rparr>))"

definition sanitizeQuestions ::
  "(jsstring \<Rightarrow> jsstring) \<Rightarrow> 'a personality_scheme list
     \<Rightarrow> ('b answer_scheme, 'c) question_scheme list
     \<Rightarrow> error + ('b answer_scheme, 'c) question_scheme list"
where
  "sanitizeQuestions toLowerCase ps qs =
     (case mapE (sanitizeQuestion toLowerCase ps) qs of
        Inl e \<Rightarrow> Inl e
      | Inr qs' \<Rightarrow> Inr (filter (\<lambda>q. length (answers q) \<noteq> 0) qs'))"

text \<open>
  \<^verbatim>\<open>sanitizeParameters\<close>: the personalities first, then the questions with the sanitized
  personalities in place; the two groups are deleted. The parameters that the sanitizer
  does not touch (title screen, visuals, texts) are left out of the records.
\<close>

definition sanitizeParameters ::
  "(jsstring \<Rightarrow> jsstring)
     \<Rightarrow> ('a personality_scheme, ('b answer_scheme, 'c) question_scheme) rawParams
     \<Rightarrow> error + ('a personality_scheme, ('b answer_scheme, 'c) question_scheme) params"
where
  "sanitizeParameters toLowerCase prm =
     (case sanitizePersonalities (personalitiesGroup prm) of
        Inl e \<Rightarrow> Inl e
      | Inr ps \<Rightarrow>
          (case sanitizeQuestions toLowerCase ps (questionsGroup prm) of
             Inl e \<Rightarrow> Inl e
           | Inr qs \<Rightarrow> Inr \<lparr>personalities = ps, questions = qs\<rparr>))"

section \<open>Reference definitions\<close>

text \<open>
  What the sanitizer is meant to compute, written without the loops and without the
  exceptions of the code, to compare the code with.

  The editor stores the name of a personality as a text, or not at all: such a name is a
  string, \<^verbatim>\<open>undefined\<close> or \<^verbatim>\<open>null\<close>.
\<close>

definition textOrMissing :: "jsval \<Rightarrow> bool" where
  "textOrMissing v = (case v of JUndefined \<Rightarrow> True | JNull \<Rightarrow> True | JStr s \<Rightarrow> True | _ \<Rightarrow> False)"

text \<open>An entry has a name when the name is a non-empty string; its name is then trimmed.\<close>

definition hasName :: "'a personality_scheme \<Rightarrow> bool" where
  "hasName p = (case name p of JStr s \<Rightarrow> s \<noteq> [] | _ \<Rightarrow> False)"

definition trimName :: "'a personality_scheme \<Rightarrow> 'a personality_scheme" where
  "trimName p = p\<lparr>name := (case name p of JStr s \<Rightarrow> JStr (trim s) | v \<Rightarrow> v)\<rparr>"

definition whitespaceOnly :: "jsval \<Rightarrow> bool" where
  "whitespaceOnly v = (case v of JStr s \<Rightarrow> s \<noteq> [] \<and> list_all isWhiteSpace s | _ \<Rightarrow> False)"

text \<open>Of the entries of one name only the first is kept; the order of the kept entries is
  that of the list.\<close>

fun keepFirst :: "'a personality_scheme list \<Rightarrow> 'a personality_scheme list" where
  "keepFirst [] = []"
| "keepFirst (p # ps) = p # keepFirst (filter (\<lambda>q. name q \<noteq> name p) ps)"

text \<open>\<^verbatim>\<open>typeof v === 'string'\<close>, and the lists of personalities all of whose names are
  strings, as \<^verbatim>\<open>isPersonalityNameValid\<close> needs them.\<close>

definition isString :: "jsval \<Rightarrow> bool" where
  "isString v = (case v of JStr s \<Rightarrow> True | _ \<Rightarrow> False)"

definition namesAreStrings :: "'a personality_scheme list \<Rightarrow> bool" where
  "namesAreStrings ps = list_all (\<lambda>p. isString (name p)) ps"

text \<open>A lower-cased name is known when it is the lower-cased name of some personality.\<close>

definition knownName ::
  "(jsstring \<Rightarrow> jsstring) \<Rightarrow> 'a personality_scheme list \<Rightarrow> jsstring \<Rightarrow> bool"
where
  "knownName toLowerCase ps v =
     list_ex (\<lambda>p. case name p of JStr s \<Rightarrow> toLowerCase s = v | _ \<Rightarrow> False) ps"

text \<open>\<^verbatim>\<open>sanitizePersonalityOption\<close> on a list of personalities whose names are strings.\<close>

definition sanitizeToken ::
  "(jsstring \<Rightarrow> jsstring) \<Rightarrow> 'a personality_scheme list \<Rightarrow> jsstring \<Rightarrow> jsstring option"
where
  "sanitizeToken toLowerCase ps value =
     (let name1 = toLowerCase (trim (fst (parseOption value)))
      in if knownName toLowerCase ps name1
         then Some (name1 @ str ''='' @ snd (parseOption value)) else None)"

text \<open>
  The sanitized personality string of an answer option, the options that survive (those
  whose sanitized string is not empty), what a surviving option looks like afterwards, and
  the questions with their surviving options, those without any left out.
\<close>

definition sanitizedString ::
  "(jsstring \<Rightarrow> jsstring) \<Rightarrow> 'a personality_scheme list \<Rightarrow> 'b answer_scheme \<Rightarrow> jsstring"
where
  "sanitizedString toLowerCase ps a =
     (case sanitizeOptionPersonalities toLowerCase ps (personality a) of
        Inr r \<Rightarrow> r
      | Inl e \<Rightarrow> [])"

definition survives ::
  "(jsstring \<Rightarrow> jsstring) \<Rightarrow> 'a personality_scheme list \<Rightarrow> 'b answer_scheme \<Rightarrow> bool"
where
  "survives toLowerCase ps a = (sanitizedString toLowerCase ps a \<noteq> [])"

definition isMissing :: "jsval \<Rightarrow> bool" where
  "isMissing v = (v = JUndefined \<or> v = JNull)"

definition specAnswer ::
  "(jsstring \<Rightarrow> jsstring) \<Rightarrow> 'a personality_scheme list \<Rightarrow> 'b answer_scheme
     \<Rightarrow> 'b answer_scheme"
where
  "specAnswer toLowerCase ps a =
     a\<lparr>text := (if isMissing (text a) then JStr placeholder else text a),
       personality := JStr (sanitizedString toLowerCase ps a)\<rparr>"

definition specQuestions ::
  "(jsstring \<Rightarrow> jsstring) \<Rightarrow> 'a personality_scheme list
     \<Rightarrow> ('b answer_scheme, 'c) question_scheme list
     \<Rightarrow> ('b answer_scheme, 'c) question_scheme list"
where
  "specQuestions toLowerCase ps qs =
     map (\<lambda>q. q\<lparr>answers := map (specAnswer toLowerCase ps)
                                 (filter (survives toLowerCase ps) (answers q))\<rparr>)
         (filter (\<lambda>q. \<exists>a \<in> set (answers q). survives toLowerCase ps a) qs)"

text \<open>Two strings match case-insensitively when their lower-cased forms are equal.\<close>

definition equalIgnoringCase :: "(jsstring \<Rightarrow> jsstring) \<Rightarrow> jsstring \<Rightarrow> jsstring \<Rightarrow> bool" where
  "equalIgnoringCase toLowerCase a b = (toLowerCase a = toLowerCase b)"

text \<open>The valid tokens of a personality string: the comma-separated pieces that
  \<^verbatim>\<open>sanitizePersonalityOption\<close> does not turn into \<^verbatim>\<open>null\<close>, in the order and as often as
  they occur.\<close>

definition validTokens ::
  "(jsstring \<Rightarrow> jsstring) \<Rightarrow> 'a personality_scheme list \<Rightarrow> jsstring \<Rightarrow> jsstring list"
where
  "validTokens toLowerCase ps s =
     filter (\<lambda>t. case sanitizePersonalityOption toLowerCase ps t of
                   Inr (Some tok) \<Rightarrow> True
                 | _ \<Rightarrow> False)
            (split (cu CHR '','') s)"

text \<open>
  What is known of \<^verbatim>\<open>String.prototype.toLowerCase\<close> and used below, each only where
  a theorem names it as a hypothesis. On a string of ASCII characters it is
  \<open>toLowerCaseAscii\<close>, which maps the letters A to Z to a to z (\<open>lowersAscii\<close>). On
  every string, lower-casing twice is lower-casing once; a string without white space at
  its ends has none after lower-casing; only the empty string gives the empty string; and a
  string without a comma gives one without a comma (\<open>lowerCaseLaws\<close>). In the closed
  examples, where every string that is lower-cased is ASCII, \<open>toLowerCaseAscii\<close> stands
  for \<^verbatim>\<open>toLowerCase\<close>.
\<close>

definition toLowerUnitAscii :: "codeunit \<Rightarrow> codeunit" where
  "toLowerUnitAscii c =
     (case map_of (zip (str ''ABCDEFGHIJKLMNOPQRSTUVWXYZ'') (str ''abcdefghijklmnopqrstuvwxyz'')) c of
        Some d \<Rightarrow> d
      | None \<Rightarrow> c)"

definition toLowerCaseAscii :: "jsstring \<Rightarrow> jsstring" where
  "toLowerCaseAscii s = map toLowerUnitAscii s"

definition asciiOnly :: "jsstring \<Rightarrow> bool" where
  "asciiOnly s = list_all (\<lambda>c. c < 0x80) s"

definition lowersAscii :: "(jsstring \<Rightarrow> jsstring) \<Rightarrow> bool" where
  "lowersAscii toLowerCase = (\<forall>s. asciiOnly s \<longrightarrow> toLowerCase s = toLowerCaseAscii s)"

definition lowerCaseLaws :: "(jsstring \<Rightarrow> jsstring) \<Rightarrow> bool" where
  "lowerCaseLaws toLowerCase =
     ((\<forall>s. toLowerCase (toLowerCase s) = toLowerCase s) \<and>
      (\<forall>s. trim s = s \<longrightarrow> trim (toLowerCase s) = toLowerCase s) \<and>
      (\<forall>s. toLowerCase s = [] \<longleftrightarrow> s = []) \<and>
      (\<forall>s. cu CHR '','' \<notin> set s \<longrightarrow> cu CHR '','' \<notin> set (toLowerCase s)))"

text \<open>The personalities all of whose names, where they are strings, are ASCII.\<close>

definition asciiNames :: "'a personality_scheme list \<Rightarrow> bool" where
  "asciiNames ps = list_all (\<lambda>p. case name p of JStr s \<Rightarrow> asciiOnly s | _ \<Rightarrow> True) ps"

section \<open>Strings: splitting, joining and the score pattern\<close>

lemma str_eq: "str ''='' = [cu CHR ''='']"
  by (simp add: str_def)

lemma str_comma: "str '','' = [cu CHR '','']"
  by (simp add: str_def)

lemma eq_not_digit: "cu CHR ''='' \<notin> set (str ''0123456789'')"
  by (simp add: str_def cu_def)

lemma comma_not_digit: "cu CHR '','' \<notin> set (str ''0123456789'')"
  by (simp add: str_def cu_def)

lemma minus_not_digit: "cu CHR ''-'' \<notin> set (str ''0123456789'')"
  by (simp add: str_def cu_def)

lemma eq_not_minus: "cu CHR ''='' \<noteq> cu CHR ''-''"
  by (simp add: cu_def)

lemma comma_not_minus: "cu CHR '','' \<noteq> cu CHR ''-''"
  by (simp add: cu_def)

lemma split_not_Nil: "split sep s \<noteq> []"
  by (induction s) (auto split: list.splits)

lemma split_no_sep: "t \<in> set (split sep s) \<Longrightarrow> sep \<notin> set t"
proof (induction s arbitrary: t)
  case Nil
  then show ?case by simp
next
  case (Cons c cs)
  then show ?case
    by (cases "split sep cs") (auto simp: split_not_Nil split: if_splits)
qed

lemma split_without_sep: "sep \<notin> set s \<Longrightarrow> split sep s = [s]"
  by (induction s) auto

lemma split_append_sep:
  "sep \<notin> set sc \<Longrightarrow> split sep (n @ sep # sc) = split sep n @ [sc]"
proof (induction n)
  case Nil
  then show ?case by (simp add: split_without_sep)
next
  case (Cons c n)
  then show ?case
    by (cases "split sep n") (auto simp: split_not_Nil)
qed

lemma join_Cons: "xs \<noteq> [] \<Longrightarrow> join sep (x # xs) = x @ sep @ join sep xs"
  by (cases xs) auto

lemma join_split: "join [sep] (split sep s) = s"
proof (induction s)
  case Nil
  then show ?case by simp
next
  case (Cons c cs)
  obtain t ts where ts: "split sep cs = t # ts"
    by (cases "split sep cs") (auto simp: split_not_Nil)
  show ?case
  proof (cases "c = sep")
    case True
    then show ?thesis using Cons by (simp add: join_Cons split_not_Nil)
  next
    case False
    then show ?thesis using Cons ts by (cases ts) auto
  qed
qed

lemma split_prefix: "sep \<notin> set x \<Longrightarrow> split sep (x @ sep # r) = x # split sep r"
  by (induction x) auto

lemma split_join:
  "ts \<noteq> [] \<Longrightarrow> \<forall>t \<in> set ts. sep \<notin> set t \<Longrightarrow> split sep (join [sep] ts) = ts"
proof (induction ts)
  case Nil
  then show ?case by simp
next
  case (Cons x ts)
  show ?case
  proof (cases ts)
    case Nil
    then show ?thesis using Cons.prems by (simp add: split_without_sep)
  next
    case (Cons y ys)
    then have "split sep (join [sep] ts) = ts" using Cons.IH Cons.prems by simp
    then show ?thesis using Cons Cons.prems by (simp add: split_prefix)
  qed
qed

lemma isDigit_not_eq: "isDigit c \<Longrightarrow> c \<noteq> (cu CHR ''='')"
  using eq_not_digit by (auto simp: isDigit_def)

lemma digits1_no_eq: "digits1 s \<Longrightarrow> cu CHR ''='' \<notin> set s"
  by (auto simp: digits1_def list_all_iff dest: isDigit_not_eq)

lemma signedInt_no_eq: "signedInt s \<Longrightarrow> cu CHR ''='' \<notin> set s"
  using eq_not_minus by (cases s) (auto dest: digits1_no_eq split: if_splits)

lemma matchScore_iff: "matchScore v \<longleftrightarrow> (\<exists>n sc. v = n @ cu CHR ''='' # sc \<and> signedInt sc)"
proof (induction v)
  case Nil
  then show ?case by simp
next
  case (Cons c cs)
  show ?case
  proof
    assume "matchScore (c # cs)"
    then consider "c = cu CHR ''=''" "signedInt cs" | "matchScore cs" by auto
    then show "\<exists>n sc. c # cs = n @ cu CHR ''='' # sc \<and> signedInt sc"
    proof cases
      case 1
      then have "c # cs = [] @ cu CHR ''='' # cs \<and> signedInt cs" by simp
      then show ?thesis by blast
    next
      case 2
      then obtain n sc where "cs = n @ cu CHR ''='' # sc" "signedInt sc" using Cons by blast
      then have "c # cs = (c # n) @ cu CHR ''='' # sc \<and> signedInt sc" by simp
      then show ?thesis by blast
    qed
  next
    assume "\<exists>n sc. c # cs = n @ cu CHR ''='' # sc \<and> signedInt sc"
    then obtain n sc where d: "c # cs = n @ cu CHR ''='' # sc" "signedInt sc" by blast
    show "matchScore (c # cs)"
    proof (cases n)
      case Nil
      then show ?thesis using d by simp
    next
      case (Cons a n')
      then have "cs = n' @ cu CHR ''='' # sc" using d by simp
      then have "matchScore cs" using d(2) Cons.IH by blast
      then show ?thesis by simp
    qed
  qed
qed

lemma digits1_iff: "digits1 s \<longleftrightarrow> s \<noteq> [] \<and> set s \<subseteq> set (str ''0123456789'')"
  unfolding digits1_def list_all_iff isDigit_def by blast

lemma signedInt_iff:
  "signedInt sc \<longleftrightarrow>
     (\<exists>ds. ds \<noteq> [] \<and> set ds \<subseteq> set (str ''0123456789'') \<and> (sc = ds \<or> sc = cu CHR ''-'' # ds))"
proof (cases sc)
  case Nil
  then show ?thesis by simp
next
  case (Cons c cs)
  define D where "D = set (str ''0123456789'')"
  have m: "cu CHR ''-'' \<notin> D" unfolding D_def by (rule minus_not_digit)
  have dig: "\<And>s. digits1 s \<longleftrightarrow> s \<noteq> [] \<and> set s \<subseteq> D"
    unfolding D_def by (rule digits1_iff)
  have "signedInt sc \<longleftrightarrow> (\<exists>ds. ds \<noteq> [] \<and> set ds \<subseteq> D \<and> (sc = ds \<or> sc = cu CHR ''-'' # ds))"
  proof (cases "c = cu CHR ''-''")
    case True
    then have s: "signedInt sc \<longleftrightarrow> cs \<noteq> [] \<and> set cs \<subseteq> D" using Cons dig by simp
    show ?thesis
    proof
      assume "signedInt sc"
      then have "cs \<noteq> [] \<and> set cs \<subseteq> D \<and> sc = cu CHR ''-'' # cs" using s Cons True by simp
      then show "\<exists>ds. ds \<noteq> [] \<and> set ds \<subseteq> D \<and> (sc = ds \<or> sc = cu CHR ''-'' # ds)" by blast
    next
      assume "\<exists>ds. ds \<noteq> [] \<and> set ds \<subseteq> D \<and> (sc = ds \<or> sc = cu CHR ''-'' # ds)"
      then obtain ds where ds: "ds \<noteq> []" "set ds \<subseteq> D" "sc = ds \<or> sc = cu CHR ''-'' # ds" by blast
      have "sc \<noteq> ds"
      proof
        assume "sc = ds"
        then have "cu CHR ''-'' \<in> set ds" using Cons True by auto
        then show False using ds(2) m by blast
      qed
      then have "cs = ds" using ds(3) Cons by simp
      then show "signedInt sc" using s ds by simp
    qed
  next
    case False
    then have s: "signedInt sc \<longleftrightarrow> set sc \<subseteq> D" using Cons dig by simp
    show ?thesis
    proof
      assume "signedInt sc"
      then have "sc \<noteq> [] \<and> set sc \<subseteq> D \<and> sc = sc" using s Cons by simp
      then show "\<exists>ds. ds \<noteq> [] \<and> set ds \<subseteq> D \<and> (sc = ds \<or> sc = cu CHR ''-'' # ds)" by blast
    next
      assume "\<exists>ds. ds \<noteq> [] \<and> set ds \<subseteq> D \<and> (sc = ds \<or> sc = cu CHR ''-'' # ds)"
      then obtain ds where ds: "ds \<noteq> []" "set ds \<subseteq> D" "sc = ds \<or> sc = cu CHR ''-'' # ds" by blast
      have "sc = ds" using ds(3) Cons False by auto
      then show "signedInt sc" using s ds by simp
    qed
  qed
  then show ?thesis unfolding D_def .
qed

lemma parseOption_score:
  assumes "signedInt sc"
  shows "parseOption (n @ cu CHR ''='' # sc) = (n, sc)"
proof -
  have m: "matchScore (n @ cu CHR ''='' # sc)" using assms matchScore_iff by blast
  have s: "split (cu CHR ''='') (n @ cu CHR ''='' # sc) = split (cu CHR ''='') n @ [sc]"
    using assms by (simp add: split_append_sep signedInt_no_eq)
  show ?thesis
    unfolding parseOption_def using m s by (simp add: join_split str_eq)
qed

lemma parseOption_plain: "\<not> matchScore v \<Longrightarrow> parseOption v = (v, str ''1'')"
  by (simp add: parseOption_def)

section \<open>Parsing a personality token\<close>

text \<open>
  C2. \<^verbatim>\<open>sanitizePersonalityOption\<close> parses a token as follows. When the token ends in an
  equals sign followed by an optionally negative integer (one or more digits, with or without
  a minus sign in front), it is split at that equals sign, which is the last one: the part
  after it is the score, everything before it the name. Otherwise, also when what follows
  the last equals sign is not a number, the whole token is the name and the score is 1.
  The function then looks up the trimmed, lower-cased name and prints name and score.
\<close>

theorem sanitizePersonalityOption_parse:
  "(\<forall>n ds sc. value = n @ str ''='' @ sc \<and> ds \<noteq> [] \<and> set ds \<subseteq> set (str ''0123456789'') \<and>
       (sc = ds \<or> sc = cu CHR ''-'' # ds)
       \<longrightarrow> parseOption value = (n, sc) \<and> cu CHR ''='' \<notin> set sc) \<and>
   ((\<nexists>n ds sc. value = n @ str ''='' @ sc \<and> ds \<noteq> [] \<and> set ds \<subseteq> set (str ''0123456789'') \<and>
       (sc = ds \<or> sc = cu CHR ''-'' # ds))
       \<longrightarrow> parseOption value = (value, str ''1'')) \<and>
   sanitizePersonalityOption toLowerCase ps value =
     (case isPersonalityNameValid toLowerCase ps (toLowerCase (trim (fst (parseOption value)))) of
        Inl e \<Rightarrow> Inl e
      | Inr valid \<Rightarrow>
          if valid
          then Inr (Some (toLowerCase (trim (fst (parseOption value))) @ str ''='' @
                          snd (parseOption value)))
          else Inr None)"
proof (intro conjI allI impI)
  fix n ds sc
  assume a: "value = n @ str ''='' @ sc \<and> ds \<noteq> [] \<and> set ds \<subseteq> set (str ''0123456789'') \<and>
       (sc = ds \<or> sc = cu CHR ''-'' # ds)"
  then have sc: "signedInt sc" using signedInt_iff by blast
  then show "parseOption value = (n, sc)" using a parseOption_score by (simp add: str_eq)
  show "cu CHR ''='' \<notin> set sc" using sc by (rule signedInt_no_eq)
next
  assume a: "\<nexists>n ds sc. value = n @ str ''='' @ sc \<and> ds \<noteq> [] \<and> set ds \<subseteq> set (str ''0123456789'') \<and>
       (sc = ds \<or> sc = cu CHR ''-'' # ds)"
  have "\<not> matchScore value"
  proof
    assume "matchScore value"
    then obtain n sc where d: "value = n @ cu CHR ''='' # sc" "signedInt sc"
      using matchScore_iff by blast
    then obtain ds where "ds \<noteq> []" "set ds \<subseteq> set (str ''0123456789'')" "sc = ds \<or> sc = cu CHR ''-'' # ds"
      using signedInt_iff by blast
    then show False using a d(1) by (auto simp: str_eq)
  qed
  then show "parseOption value = (value, str ''1'')" by (rule parseOption_plain)
next
  show "sanitizePersonalityOption toLowerCase ps value =
     (case isPersonalityNameValid toLowerCase ps (toLowerCase (trim (fst (parseOption value)))) of
        Inl e \<Rightarrow> Inl e
      | Inr valid \<Rightarrow>
          if valid
          then Inr (Some (toLowerCase (trim (fst (parseOption value))) @ str ''='' @
                          snd (parseOption value)))
          else Inr None)"
    by (simp add: sanitizePersonalityOption_def case_prod_beta split: sum.splits)
qed

theorem sanitizePersonalityOption_parse_witness:
  "(str ''brave=-2'' = str ''brave'' @ str ''='' @ str ''-2'' \<and> str ''2'' \<noteq> [] \<and> set (str ''2'') \<subseteq> set (str ''0123456789'') \<and>
      parseOption (str ''brave=-2'') = (str ''brave'', str ''-2'')) \<and>
   ((\<nexists>n ds sc. (str ''brave=x'') = n @ str ''='' @ sc \<and> ds \<noteq> [] \<and> set ds \<subseteq> set (str ''0123456789'') \<and>
       (sc = ds \<or> sc = cu CHR ''-'' # ds)) \<and>
      parseOption (str ''brave=x'') = (str ''brave=x'', str ''1''))"
proof -
  have h: "str ''brave=-2'' = str ''brave'' @ str ''='' @ str ''-2'' \<and> str ''2'' \<noteq> [] \<and>
      set (str ''2'') \<subseteq> set (str ''0123456789'') \<and> (str ''-2'' = str ''2'' \<or> str ''-2'' = cu CHR ''-'' # (str ''2''))"
    by (simp add: str_def cu_def)
  have 1: "parseOption (str ''brave=-2'') = (str ''brave'', str ''-2'')"
    using sanitizePersonalityOption_parse [of "str ''brave=-2''"] h by blast
  have n: "\<nexists>n ds sc. (str ''brave=x'') = n @ str ''='' @ sc \<and> ds \<noteq> [] \<and> set ds \<subseteq> set (str ''0123456789'') \<and>
       (sc = ds \<or> sc = cu CHR ''-'' # ds)"
  proof
    assume "\<exists>n ds sc. (str ''brave=x'') = n @ str ''='' @ sc \<and> ds \<noteq> [] \<and> set ds \<subseteq> set (str ''0123456789'') \<and>
       (sc = ds \<or> sc = cu CHR ''-'' # ds)"
    then obtain n ds sc where d: "str ''brave=x'' = n @ str ''='' @ sc" "ds \<noteq> []"
      "set ds \<subseteq> set (str ''0123456789'')" "sc = ds \<or> sc = cu CHR ''-'' # ds"
      by blast
    then have "signedInt sc" using signedInt_iff by blast
    moreover have "str ''brave=x'' = n @ cu CHR ''='' # sc" using d(1) by (simp add: str_eq)
    ultimately have "matchScore (str ''brave=x'')" using matchScore_iff by blast
    moreover have "\<not> matchScore (str ''brave=x'')" by code_simp
    ultimately show False by blast
  qed
  have 2: "parseOption (str ''brave=x'') = (str ''brave=x'', str ''1'')"
    using sanitizePersonalityOption_parse [of "str ''brave=x''"] n by blast
  show ?thesis using h 1 n 2 by blast
qed

section \<open>Trimming\<close>

lemma dropWhile_all: "list_all P xs \<Longrightarrow> dropWhile P xs = []"
  by (induction xs) auto

lemma trim_whitespace: "list_all isWhiteSpace s \<Longrightarrow> trim s = []"
  by (simp add: trim_def dropWhile_all)

lemma dropWhile_fixed: "(xs = [] \<or> \<not> P (hd xs)) \<Longrightarrow> dropWhile P xs = xs"
  by (cases xs) auto

lemma rev_dropWhile_rev_not_Nil: "rev (dropWhile P (rev a)) \<noteq> [] \<Longrightarrow> a \<noteq> []"
  by auto

lemma hd_rev_dropWhile_rev:
  "rev (dropWhile P (rev a)) \<noteq> [] \<Longrightarrow> hd (rev (dropWhile P (rev a))) = hd a"
proof -
  assume ne: "rev (dropWhile P (rev a)) \<noteq> []"
  have "rev a = takeWhile P (rev a) @ dropWhile P (rev a)" by simp
  then have "a = rev (dropWhile P (rev a)) @ rev (takeWhile P (rev a))"
    by (metis rev_append rev_rev_ident)
  then show ?thesis using ne by (metis hd_append2)
qed

lemma trim_trim: "trim (trim s) = trim s"
proof -
  define a where "a = dropWhile isWhiteSpace s"
  define b where "b = dropWhile isWhiteSpace (rev a)"
  have a: "a = [] \<or> \<not> isWhiteSpace (hd a)" unfolding a_def using hd_dropWhile by blast
  have "rev b = [] \<or> \<not> isWhiteSpace (hd (rev b))"
  proof (cases "rev b = []")
    case True
    then show ?thesis by blast
  next
    case False
    then have "hd (rev b) = hd a" unfolding b_def by (rule hd_rev_dropWhile_rev)
    moreover have "a \<noteq> []" using False unfolding b_def by (rule rev_dropWhile_rev_not_Nil)
    ultimately show ?thesis using a by metis
  qed
  then have "dropWhile isWhiteSpace (rev b) = rev b" by (rule dropWhile_fixed)
  moreover have "dropWhile isWhiteSpace b = b" unfolding b_def by (rule dropWhile_idem)
  ultimately have "rev (dropWhile isWhiteSpace (rev (dropWhile isWhiteSpace (rev b)))) = rev b"
    by simp
  then show ?thesis unfolding trim_def b_def a_def .
qed

section \<open>The personality pass\<close>

lemma personalityStep_skip:
  "textOrMissing (name p) \<Longrightarrow> \<not> hasName p \<Longrightarrow> personalityStep results p = Inr results"
  by (cases "name p") (auto simp: personalityStep_def textOrMissing_def hasName_def)

lemma personalityStep_named:
  "hasName p \<Longrightarrow>
   personalityStep results p =
     Inr (if name (trimName p) \<in> name ` set results then results else results @ [trimName p])"
  by (cases "name p")
     (auto simp: personalityStep_def hasName_def trimName_def list_ex_iff Let_def image_iff)

lemma reduceE_personalityStep:
  "\<forall>p \<in> set raw. textOrMissing (name p) \<Longrightarrow>
   reduceE personalityStep acc raw =
     Inr (acc @ keepFirst (filter (\<lambda>z. name z \<notin> name ` set acc)
                                     (map trimName (filter hasName raw))))"
proof (induction raw arbitrary: acc)
  case Nil
  then show ?case by simp
next
  case (Cons p raw)
  then have IH: "\<And>acc. reduceE personalityStep acc raw =
     Inr (acc @ keepFirst (filter (\<lambda>z. name z \<notin> name ` set acc)
                                     (map trimName (filter hasName raw))))"
    by simp
  show ?case
  proof (cases "hasName p")
    case False
    then show ?thesis using Cons.prems IH by (simp add: personalityStep_skip)
  next
    case True
    show ?thesis
    proof (cases "name (trimName p) \<in> name ` set acc")
      case True
      then show ?thesis using \<open>hasName p\<close> IH by (simp add: personalityStep_named)
    next
      case False
      let ?zs = "map trimName (filter hasName raw)"
      have eq: "filter (\<lambda>z. name z \<notin> name ` set (acc @ [trimName p])) zs =
            filter (\<lambda>q. name q \<noteq> name (trimName p)) (filter (\<lambda>z. name z \<notin> name ` set acc) zs)" for zs
        by (induction zs) auto
      have "reduceE personalityStep acc (p # raw) = reduceE personalityStep (acc @ [trimName p]) raw"
        using False \<open>hasName p\<close> by (simp add: personalityStep_named)
      also have "\<dots> = Inr ((acc @ [trimName p]) @
          keepFirst (filter (\<lambda>z. name z \<notin> name ` set (acc @ [trimName p])) ?zs))"
        by (rule IH)
      also have "\<dots> = Inr (acc @ keepFirst (filter (\<lambda>z. name z \<notin> name ` set acc) (trimName p # ?zs)))"
        unfolding eq using False by simp
      finally show ?thesis using \<open>hasName p\<close> by simp
    qed
  qed
qed

lemma sanitizePersonalities_total:
  "\<forall>p \<in> set raw. textOrMissing (name p) \<Longrightarrow>
   sanitizePersonalities raw = Inr (keepFirst (map trimName (filter hasName raw)))"
  by (simp add: sanitizePersonalities_def reduceE_personalityStep)

lemma set_keepFirst_subset: "set (keepFirst zs) \<subseteq> set zs"
  by (induction zs rule: keepFirst.induct) auto

lemma names_keepFirst: "name ` set (keepFirst zs) = name ` set zs"
proof (induction zs rule: keepFirst.induct)
  case 1
  then show ?case by simp
next
  case (2 p ps)
  have "name ` set (p # ps) = insert (name p) (name ` set (filter (\<lambda>q. name q \<noteq> name p) ps))"
    by auto
  then show ?case using 2 by simp
qed

lemma distinct_keepFirst: "distinct (map name (keepFirst zs))"
proof (induction zs rule: keepFirst.induct)
  case 1
  then show ?case by simp
next
  case (2 p ps)
  have "name p \<notin> name ` set (keepFirst (filter (\<lambda>q. name q \<noteq> name p) ps))"
    using set_keepFirst_subset[of "filter (\<lambda>q. name q \<noteq> name p) ps"] by auto
  then show ?case using 2 by simp
qed

lemma find_filter_imp: "(\<And>x. P x \<Longrightarrow> Q x) \<Longrightarrow> find P (filter Q xs) = find P xs"
  by (induction xs) auto

lemma keepFirst_find:
  "r \<in> set (keepFirst zs) \<Longrightarrow> find (\<lambda>q. name q = name r) zs = Some r"
proof (induction zs rule: keepFirst.induct)
  case 1
  then show ?case by simp
next
  case (2 p ps)
  show ?case
  proof (cases "r = p")
    case True
    then show ?thesis by simp
  next
    case False
    then have r: "r \<in> set (keepFirst (filter (\<lambda>q. name q \<noteq> name p) ps))" using 2(2) by simp
    then have ne: "name r \<noteq> name p" using set_keepFirst_subset by fastforce
    have "find (\<lambda>q. name q = name r) (filter (\<lambda>q. name q \<noteq> name p) ps) = Some r"
      using 2(1) r by simp
    moreover have "find (\<lambda>q. name q = name r) (filter (\<lambda>q. name q \<noteq> name p) ps)
        = find (\<lambda>q. name q = name r) ps"
      using ne by (intro find_filter_imp) simp
    ultimately show ?thesis using ne by simp
  qed
qed

lemma names_trimmed:
  "name ` set (map trimName (filter hasName raw)) =
     {JStr (trim s) | s. s \<noteq> [] \<and> (\<exists>p \<in> set raw. name p = JStr s)}"
proof -
  have "\<And>p. hasName p \<longleftrightarrow> (\<exists>s. name p = JStr s \<and> s \<noteq> [])"
    by (simp add: hasName_def split: jsval.splits)
  moreover have "\<And>p s. name p = JStr s \<Longrightarrow> name (trimName p) = JStr (trim s)"
    by (simp add: trimName_def)
  ultimately show ?thesis by (fastforce simp: image_iff)
qed

lemma reduceE_invariant:
  assumes "\<And>acc x acc'. I acc \<Longrightarrow> f acc x = Inr acc' \<Longrightarrow> I acc'"
  shows "I acc \<Longrightarrow> reduceE f acc xs = Inr r \<Longrightarrow> I r"
proof (induction xs arbitrary: acc)
  case Nil
  then show ?case by simp
next
  case (Cons x xs)
  then show ?case using assms by (auto split: sum.splits)
qed

lemma personalityStep_cases:
  assumes "personalityStep results p = Inr results'"
  shows "results' = results \<or>
         (\<exists>s. name p = JStr s \<and> s \<noteq> [] \<and> JStr (trim s) \<notin> name ` set results \<and>
              results' = results @ [p\<lparr>name := JStr (trim s)\<rparr>])"
proof (cases "name p")
  case (JStr s)
  then show ?thesis using assms
    by (auto simp: personalityStep_def Let_def list_ex_iff image_iff split: if_splits)
qed (use assms in \<open>auto simp: personalityStep_def Let_def split: if_splits option.splits\<close>)

lemma personalityStep_Inr:
  assumes "personalityStep results p = Inr results'"
  shows "results' =
     (if hasName p \<and> name (trimName p) \<notin> name ` set results then results @ [trimName p]
      else results)"
proof (cases "hasName p")
  case True
  then show ?thesis using assms by (auto simp: personalityStep_named)
next
  case False
  then show ?thesis using personalityStep_cases[OF assms] by (auto simp: hasName_def)
qed

lemma reduceE_personalityStep_Inr:
  "reduceE personalityStep acc raw = Inr r \<Longrightarrow>
   r = acc @ keepFirst (filter (\<lambda>z. name z \<notin> name ` set acc)
                                     (map trimName (filter hasName raw)))"
proof (induction raw arbitrary: acc)
  case Nil
  then show ?case by simp
next
  case (Cons p raw)
  let ?zs = "map trimName (filter hasName raw)"
  from Cons.prems obtain acc' where
    step: "personalityStep acc p = Inr acc'" and rest: "reduceE personalityStep acc' raw = Inr r"
    by (auto split: sum.splits)
  have r: "r = acc' @ keepFirst (filter (\<lambda>z. name z \<notin> name ` set acc') ?zs)"
    using Cons.IH rest by blast
  show ?case
  proof (cases "hasName p \<and> name (trimName p) \<notin> name ` set acc")
    case True
    then have acc': "acc' = acc @ [trimName p]" using personalityStep_Inr[OF step] by simp
    have eq: "filter (\<lambda>z. name z \<notin> name ` set (acc @ [trimName p])) zs =
            filter (\<lambda>q. name q \<noteq> name (trimName p)) (filter (\<lambda>z. name z \<notin> name ` set acc) zs)" for zs
      by (induction zs) auto
    show ?thesis unfolding r acc' eq using True by simp
  next
    case False
    then have acc': "acc' = acc" using personalityStep_Inr[OF step] by auto
    show ?thesis unfolding r acc' using False by auto
  qed
qed

lemma sanitizePersonalities_Inr:
  "sanitizePersonalities raw = Inr ps \<Longrightarrow> ps = keepFirst (map trimName (filter hasName raw))"
  using reduceE_personalityStep_Inr[of "[]" raw ps] by (simp add: sanitizePersonalities_def)

lemma personalityStep_strings:
  "namesAreStrings results \<Longrightarrow> personalityStep results p = Inr results' \<Longrightarrow> namesAreStrings results'"
  by (drule personalityStep_cases) (auto simp: namesAreStrings_def isString_def)

lemma personalityStep_distinct:
  "distinct (map name results) \<Longrightarrow> personalityStep results p = Inr results'
     \<Longrightarrow> distinct (map name results')"
  by (drule personalityStep_cases) auto

lemma personalityStep_trimmed:
  assumes "\<forall>r \<in> set results. \<exists>s. name r = JStr s \<and> trim s = s"
    and "personalityStep results p = Inr results'"
  shows "\<forall>r \<in> set results'. \<exists>s. name r = JStr s \<and> trim s = s"
  using personalityStep_cases[OF assms(2)] assms(1) by (auto simp: trim_trim)

lemma sanitizePersonalities_strings:
  assumes "sanitizePersonalities raw = Inr ps"
  shows "namesAreStrings ps"
proof -
  have "namesAreStrings ([] :: 'a personality_scheme list)" by (simp add: namesAreStrings_def)
  moreover have "reduceE personalityStep [] raw = Inr ps"
    using assms by (simp add: sanitizePersonalities_def)
  ultimately show ?thesis
    using reduceE_invariant[of namesAreStrings personalityStep] personalityStep_strings by blast
qed

lemma sanitizePersonalities_distinct:
  assumes "sanitizePersonalities raw = Inr ps"
  shows "distinct (map name ps)"
proof -
  have "distinct (map name ([] :: 'a personality_scheme list))" by simp
  moreover have "reduceE personalityStep [] raw = Inr ps"
    using assms by (simp add: sanitizePersonalities_def)
  ultimately show ?thesis
    using reduceE_invariant[of "\<lambda>rs. distinct (map name rs)" personalityStep]
      personalityStep_distinct by blast
qed

lemma sanitizePersonalities_trimmed:
  assumes "sanitizePersonalities raw = Inr ps"
  shows "\<forall>r \<in> set ps. \<exists>s. name r = JStr s \<and> trim s = s"
proof -
  have "\<forall>r \<in> set ([] :: 'a personality_scheme list). \<exists>s. name r = JStr s \<and> trim s = s" by simp
  moreover have "reduceE personalityStep [] raw = Inr ps"
    using assms by (simp add: sanitizePersonalities_def)
  ultimately show ?thesis
    using reduceE_invariant[of "\<lambda>rs. \<forall>r \<in> set rs. \<exists>s. name r = JStr s \<and> trim s = s" personalityStep]
      personalityStep_trimmed by blast
qed

section \<open>Tokens, answer options and questions on sanitized personalities\<close>

lemma isPersonalityNameValid_strings:
  "namesAreStrings ps \<Longrightarrow> isPersonalityNameValid toLowerCase ps v = Inr (knownName toLowerCase ps v)"
proof (induction ps)
  case Nil
  then show ?case by (simp add: knownName_def)
next
  case (Cons p ps)
  then obtain s where "name p = JStr s"
    by (cases "name p") (auto simp: namesAreStrings_def isString_def)
  then show ?case using Cons by (auto simp: knownName_def namesAreStrings_def)
qed

lemma sanitizePersonalityOption_strings:
  "namesAreStrings ps \<Longrightarrow> sanitizePersonalityOption toLowerCase ps value = Inr (sanitizeToken toLowerCase ps value)"
  by (simp add: sanitizePersonalityOption_def sanitizeToken_def isPersonalityNameValid_strings
      case_prod_beta Let_def)

lemma mapE_pure: "(\<And>x. x \<in> set xs \<Longrightarrow> f x = Inr (g x)) \<Longrightarrow> mapE f xs = Inr (map g xs)"
  by (induction xs) auto

lemma sanitizeOptionPersonalities_strings:
  "namesAreStrings ps \<Longrightarrow>
   sanitizeOptionPersonalities toLowerCase ps (JStr s) =
     Inr (join (str '','') (dropNulls (map (sanitizeToken toLowerCase ps) (split (cu CHR '','') s))))"
  by (simp add: sanitizeOptionPersonalities_def mapE_pure sanitizePersonalityOption_strings)

lemma sanitizeOptionPersonalities_other:
  "\<not> isString v \<Longrightarrow> sanitizeOptionPersonalities toLowerCase ps v = Inr []"
  by (cases v) (auto simp: sanitizeOptionPersonalities_def isString_def)

lemma sanitizeOptionPersonalities_total:
  assumes "namesAreStrings ps"
  shows "\<exists>r. sanitizeOptionPersonalities toLowerCase ps v = Inr r"
proof (cases "isString v")
  case True
  then obtain s where "v = JStr s" by (cases v) (auto simp: isString_def)
  then show ?thesis using assms by (simp add: sanitizeOptionPersonalities_strings)
next
  case False
  then show ?thesis by (simp add: sanitizeOptionPersonalities_other)
qed

lemma sanitizeOptionPersonalities_sanitizedString:
  "namesAreStrings ps \<Longrightarrow>
   sanitizeOptionPersonalities toLowerCase ps (personality a) = Inr (sanitizedString toLowerCase ps a)"
  using sanitizeOptionPersonalities_total[of ps toLowerCase "personality a"]
  by (auto simp: sanitizedString_def)

lemma filterAnswers_strings:
  assumes "namesAreStrings ps"
  shows "filterAnswers toLowerCase ps as =
     Inr (map (\<lambda>a. a\<lparr>personality := JStr (sanitizedString toLowerCase ps a)\<rparr>) (filter (survives toLowerCase ps) as))"
proof -
  let ?g = "\<lambda>a. a\<lparr>personality := JStr (sanitizedString toLowerCase ps a)\<rparr>"
  have "mapE (\<lambda>a. case sanitizeOptionPersonalities toLowerCase ps (personality a) of
                       Inl e \<Rightarrow> Inl e
                     | Inr s \<Rightarrow> Inr (a\<lparr>personality := JStr s\<rparr>)) as = Inr (map ?g as)"
    by (rule mapE_pure) (simp add: sanitizeOptionPersonalities_sanitizedString assms)
  moreover have "filter (\<lambda>a. personality a \<noteq> JStr []) (map ?g as) = map ?g (filter (survives toLowerCase ps) as)"
    by (induction as) (auto simp: survives_def)
  ultimately show ?thesis by (simp add: filterAnswers_def)
qed

lemma defaultText_specAnswer:
  "defaultText (a\<lparr>personality := JStr (sanitizedString toLowerCase ps a)\<rparr>) = specAnswer toLowerCase ps a"
  by (simp add: defaultText_def specAnswer_def isMissing_def)

lemma sanitizeQuestion_strings:
  assumes "namesAreStrings ps"
  shows "sanitizeQuestion toLowerCase ps q =
     Inr (q\<lparr>answers := map (specAnswer toLowerCase ps) (filter (survives toLowerCase ps) (answers q))\<rparr>)"
  by (simp add: sanitizeQuestion_def filterAnswers_strings[OF assms] o_def defaultText_specAnswer)

lemma sanitizeQuestions_strings:
  assumes "namesAreStrings ps"
  shows "sanitizeQuestions toLowerCase ps qs = Inr (specQuestions toLowerCase ps qs)"
proof -
  let ?h = "\<lambda>q. q\<lparr>answers := map (specAnswer toLowerCase ps) (filter (survives toLowerCase ps) (answers q))\<rparr>"
  have "mapE (sanitizeQuestion toLowerCase ps) qs = Inr (map ?h qs)"
    by (rule mapE_pure) (simp add: sanitizeQuestion_strings assms)
  moreover have "filter (\<lambda>q. length (answers q) \<noteq> 0) (map ?h qs) =
      map ?h (filter (\<lambda>q. \<exists>a \<in> set (answers q). survives toLowerCase ps a) qs)"
    by (induction qs) (auto simp: filter_empty_conv)
  ultimately show ?thesis by (simp add: sanitizeQuestions_def specQuestions_def)
qed

lemma sanitizeParameters_result:
  assumes "sanitizePersonalities (personalitiesGroup prm) = Inr ps"
  shows "sanitizeParameters toLowerCase prm =
           Inr \<lparr>personalities = ps, questions = specQuestions toLowerCase ps (questionsGroup prm)\<rparr>"
  using assms sanitizePersonalities_strings[OF assms]
  by (simp add: sanitizeParameters_def sanitizeQuestions_strings)

lemma sanitizeParameters_Inr:
  assumes "sanitizeParameters toLowerCase prm = Inr out"
  shows "sanitizePersonalities (personalitiesGroup prm) = Inr (personalities out) \<and>
         questions out = specQuestions toLowerCase (personalities out) (questionsGroup prm)"
proof -
  obtain ps where ps: "sanitizePersonalities (personalitiesGroup prm) = Inr ps"
    using assms by (auto simp: sanitizeParameters_def split: sum.splits)
  then have "out = \<lparr>personalities = ps, questions = specQuestions toLowerCase ps (questionsGroup prm)\<rparr>"
    using assms sanitizeParameters_result[OF ps] by simp
  then show ?thesis using ps by simp
qed

section \<open>The sanitized personalities\<close>

text \<open>
  C1. When every name of the input list is a text or missing, \<^verbatim>\<open>sanitizeParameters\<close>
  returns. Whenever it returns, its personalities are the input entries in their order,
  without those whose name is missing or empty, each with its name trimmed, and without
  every entry whose trimmed name an earlier kept entry has already (compared as it is
  written, not lower-cased). So no name occurs twice, each kept entry is the first of its
  trimmed name, and the names that survive are exactly the trimmed non-empty names of the
  input.
\<close>

theorem sanitizeParameters_personalities:
  "((\<forall>p \<in> set (personalitiesGroup prm). textOrMissing (name p)) \<longrightarrow>
      (\<exists>out. sanitizeParameters toLowerCase prm = Inr out)) \<and>
   (\<forall>out. sanitizeParameters toLowerCase prm = Inr out \<longrightarrow>
      personalities out = keepFirst (map trimName (filter hasName (personalitiesGroup prm))) \<and>
      distinct (map name (personalities out)) \<and>
      (\<forall>r \<in> set (personalities out).
          find (\<lambda>q. name q = name r) (map trimName (filter hasName (personalitiesGroup prm)))
            = Some r) \<and>
      name ` set (personalities out) =
        {JStr (trim s) | s. s \<noteq> [] \<and> (\<exists>p \<in> set (personalitiesGroup prm). name p = JStr s)})"
proof (intro conjI allI impI)
  assume "\<forall>p \<in> set (personalitiesGroup prm). textOrMissing (name p)"
  then have "sanitizePersonalities (personalitiesGroup prm) =
      Inr (keepFirst (map trimName (filter hasName (personalitiesGroup prm))))"
    by (rule sanitizePersonalities_total)
  then show "\<exists>out. sanitizeParameters toLowerCase prm = Inr out"
    using sanitizeParameters_result by blast
next
  fix out
  assume "sanitizeParameters toLowerCase prm = Inr out"
  then have "sanitizePersonalities (personalitiesGroup prm) = Inr (personalities out)"
    using sanitizeParameters_Inr by blast
  then show k: "personalities out =
      keepFirst (map trimName (filter hasName (personalitiesGroup prm)))"
    by (rule sanitizePersonalities_Inr)
  show "distinct (map name (personalities out))"
    unfolding k by (rule distinct_keepFirst)
  show "\<forall>r \<in> set (personalities out).
      find (\<lambda>q. name q = name r) (map trimName (filter hasName (personalitiesGroup prm))) = Some r"
    unfolding k by (simp add: keepFirst_find)
  show "name ` set (personalities out) =
      {JStr (trim s) | s. s \<noteq> [] \<and> (\<exists>p \<in> set (personalitiesGroup prm). name p = JStr s)}"
    unfolding k by (simp only: names_keepFirst names_trimmed)
qed

theorem sanitizeParameters_personalities_witness:
  "list_all (\<lambda>p. textOrMissing (name p))
     [\<lparr>name = JStr (0x00A0 # str ''Brave '')\<rparr>, \<lparr>name = JUndefined\<rparr>, \<lparr>name = JStr []\<rparr>,
      \<lparr>name = JStr (str ''Brave'')\<rparr>, \<lparr>name = JStr (str ''brave'')\<rparr>] \<and>
   (\<exists>out. sanitizeParameters toLowerCaseAscii
        \<lparr>personalitiesGroup = [\<lparr>name = JStr (0x00A0 # str ''Brave '')\<rparr>, \<lparr>name = JUndefined\<rparr>, \<lparr>name = JStr []\<rparr>,
                                \<lparr>name = JStr (str ''Brave'')\<rparr>, \<lparr>name = JStr (str ''brave'')\<rparr>],
         questionsGroup = ([] :: answer question list)\<rparr> = Inr out \<and>
      personalities out = [\<lparr>name = JStr (str ''Brave'')\<rparr>, \<lparr>name = JStr (str ''brave'')\<rparr>])"
proof -
  define prm :: "(personality, answer question) rawParams" where
    "prm = \<lparr>personalitiesGroup = [\<lparr>name = JStr (0x00A0 # str ''Brave '')\<rparr>, \<lparr>name = JUndefined\<rparr>, \<lparr>name = JStr []\<rparr>,
                                \<lparr>name = JStr (str ''Brave'')\<rparr>, \<lparr>name = JStr (str ''brave'')\<rparr>],
         questionsGroup = []\<rparr>"
  have h: "\<forall>p \<in> set (personalitiesGroup prm). textOrMissing (name p)"
    unfolding prm_def by code_simp
  have e: "keepFirst (map trimName (filter hasName (personalitiesGroup prm))) =
      [\<lparr>name = JStr (str ''Brave'')\<rparr>, \<lparr>name = JStr (str ''brave'')\<rparr>]"
    unfolding prm_def by code_simp
  note R = sanitizeParameters_personalities [of prm toLowerCaseAscii]
  obtain out where out: "sanitizeParameters toLowerCaseAscii prm = Inr out" using R h by blast
  then have "personalities out =
      keepFirst (map trimName (filter hasName (personalitiesGroup prm)))"
    using R by blast
  then have "\<exists>out. sanitizeParameters toLowerCaseAscii prm = Inr out \<and>
      personalities out = [\<lparr>name = JStr (str ''Brave'')\<rparr>, \<lparr>name = JStr (str ''brave'')\<rparr>]"
    using e out by auto
  then show ?thesis using h unfolding prm_def by (simp add: list_all_iff)
qed

text \<open>
  C5. Names that differ only in case are different names for the personality pass: of
  \<^verbatim>\<open>Brave\<close> and \<^verbatim>\<open>brave\<close> both survive, although they are equal once lower-cased.
\<close>

theorem personalities_differing_in_case_counterexample:
  "sanitizeParameters toLowerCaseAscii
     \<lparr>personalitiesGroup = [\<lparr>name = JStr (str ''Brave'')\<rparr>, \<lparr>name = JStr (str ''brave'')\<rparr>],
      questionsGroup = ([] :: answer question list)\<rparr>
   = Inr \<lparr>personalities = [\<lparr>name = JStr (str ''Brave'')\<rparr>, \<lparr>name = JStr (str ''brave'')\<rparr>], questions = []\<rparr>
   \<and> toLowerCaseAscii (trim (str ''Brave'')) = toLowerCaseAscii (trim (str ''brave''))"
  by code_simp

text \<open>
  C5, as the code has it. After sanitization no two personalities have the same name, the
  names compared exactly as written (case-sensitively); every name is a trimmed string.
\<close>

theorem sanitized_names_distinct:
  assumes "sanitizeParameters toLowerCase prm = Inr out"
  shows "distinct (map name (personalities out)) \<and>
         (\<forall>p \<in> set (personalities out). \<exists>s. name p = JStr s \<and> trim s = s)"
  using sanitizeParameters_Inr[OF assms] sanitizePersonalities_distinct sanitizePersonalities_trimmed
  by blast

theorem sanitized_names_distinct_witness:
  "sanitizeParameters toLowerCaseAscii
     \<lparr>personalitiesGroup = [\<lparr>name = JStr (str ''Brave '')\<rparr>, \<lparr>name = JStr (str ''Kind'')\<rparr>, \<lparr>name = JStr (str '' Brave'')\<rparr>],
      questionsGroup = ([] :: answer question list)\<rparr>
   = Inr \<lparr>personalities = [\<lparr>name = JStr (str ''Brave'')\<rparr>, \<lparr>name = JStr (str ''Kind'')\<rparr>], questions = []\<rparr> \<and>
   distinct (map name [\<lparr>name = JStr (str ''Brave'')\<rparr>, \<lparr>name = JStr (str ''Kind'')\<rparr>]) \<and>
   list_all (\<lambda>p. \<exists>s. name p = JStr s \<and> trim s = s)
     [\<lparr>name = JStr (str ''Brave'')\<rparr>, \<lparr>name = JStr (str ''Kind'')\<rparr>]"
proof -
  have e: "sanitizeParameters toLowerCaseAscii
     \<lparr>personalitiesGroup = [\<lparr>name = JStr (str ''Brave '')\<rparr>, \<lparr>name = JStr (str ''Kind'')\<rparr>, \<lparr>name = JStr (str '' Brave'')\<rparr>],
      questionsGroup = ([] :: answer question list)\<rparr>
   = Inr \<lparr>personalities = [\<lparr>name = JStr (str ''Brave'')\<rparr>, \<lparr>name = JStr (str ''Kind'')\<rparr>], questions = []\<rparr>"
    by code_simp
  show ?thesis using sanitized_names_distinct [OF e] e by (simp add: list_all_iff)
qed

section \<open>Lower-casing of ASCII strings\<close>

lemma toLowerUnitAscii_idem: "toLowerUnitAscii (toLowerUnitAscii c) = toLowerUnitAscii c"
  by (simp add: toLowerUnitAscii_def str_def cu_def)

lemma toLowerUnitAscii_comma: "toLowerUnitAscii c = cu CHR '','' \<longleftrightarrow> c = cu CHR '',''"
  by (simp add: toLowerUnitAscii_def str_def cu_def)

lemma isWhiteSpace_toLowerUnitAscii: "isWhiteSpace (toLowerUnitAscii c) = isWhiteSpace c"
  by (simp add: toLowerUnitAscii_def isWhiteSpace_def str_def cu_def)

lemma toLowerCaseAscii_idem: "toLowerCaseAscii (toLowerCaseAscii s) = toLowerCaseAscii s"
  by (simp add: toLowerCaseAscii_def toLowerUnitAscii_idem)

lemma toLowerCaseAscii_Nil_iff: "toLowerCaseAscii s = [] \<longleftrightarrow> s = []"
  by (simp add: toLowerCaseAscii_def)

lemma comma_toLowerCaseAscii:
  "cu CHR '','' \<in> set (toLowerCaseAscii s) \<longleftrightarrow> cu CHR '','' \<in> set s"
  by (induction s)
     (simp_all add: toLowerCaseAscii_def toLowerUnitAscii_comma eq_commute[of "cu CHR '',''"])

lemma dropWhile_toLowerCaseAscii:
  "dropWhile isWhiteSpace (toLowerCaseAscii s) = toLowerCaseAscii (dropWhile isWhiteSpace s)"
  by (induction s) (auto simp: toLowerCaseAscii_def isWhiteSpace_toLowerUnitAscii)

lemma trim_toLowerCaseAscii: "trim (toLowerCaseAscii s) = toLowerCaseAscii (trim s)"
proof -
  have r: "rev (toLowerCaseAscii x) = toLowerCaseAscii (rev x)" for x
    by (simp add: toLowerCaseAscii_def rev_map)
  show ?thesis by (simp add: trim_def dropWhile_toLowerCaseAscii r)
qed

lemma lowersAscii_toLowerCaseAscii: "lowersAscii toLowerCaseAscii"
  by (simp add: lowersAscii_def)

lemma lowerCaseLaws_toLowerCaseAscii: "lowerCaseLaws toLowerCaseAscii"
  unfolding lowerCaseLaws_def
  by (simp add: toLowerCaseAscii_idem trim_toLowerCaseAscii toLowerCaseAscii_Nil_iff
      comma_toLowerCaseAscii)

section \<open>Names of white space only\<close>

lemma set_trim: "set (trim s) \<subseteq> set s"
proof -
  have "set (trim s) \<subseteq> set (rev (dropWhile isWhiteSpace s))"
    unfolding trim_def using set_dropWhileD by fastforce
  also have "\<dots> \<subseteq> set s" using set_dropWhileD by fastforce
  finally show ?thesis .
qed

lemma trim_Nil_iff: "trim s = [] \<longleftrightarrow> list_all isWhiteSpace s"
proof
  assume "trim s = []"
  then have "\<forall>x \<in> set (dropWhile isWhiteSpace s). isWhiteSpace x"
    by (simp add: trim_def dropWhile_eq_Nil_conv)
  then have "dropWhile isWhiteSpace s = []"
    using hd_dropWhile[of isWhiteSpace s] hd_in_set by blast
  then show "list_all isWhiteSpace s" by (simp add: dropWhile_eq_Nil_conv list_all_iff)
next
  assume "list_all isWhiteSpace s"
  then show "trim s = []" by (rule trim_whitespace)
qed

lemma find_SomeD: "find P xs = Some x \<Longrightarrow> x \<in> set xs \<and> P x"
  by (induction xs) (auto split: if_splits)

lemma find_map_filter:
  "find P (map f (filter Q xs)) = map_option f (find (\<lambda>x. Q x \<and> P (f x)) xs)"
  by (induction xs) auto

lemma whitespaceOnly_iff:
  "whitespaceOnly (name q) \<longleftrightarrow> hasName q \<and> name (trimName q) = JStr []"
  by (cases "name q") (auto simp: whitespaceOnly_def hasName_def trimName_def trim_Nil_iff)

lemma first_whitespaceOnly_kept:
  assumes "find (\<lambda>q. whitespaceOnly (name q)) raw = Some p"
  shows "p\<lparr>name := JStr []\<rparr> \<in> set (keepFirst (map trimName (filter hasName raw)))"
proof -
  let ?zs = "map trimName (filter hasName raw)"
  have w: "whitespaceOnly (name p)" using find_SomeD[OF assms] by simp
  then have tp: "trimName p = p\<lparr>name := JStr []\<rparr>"
    using whitespaceOnly_iff[of p] by (simp add: trimName_def)
  have f: "find (\<lambda>q. name q = JStr []) ?zs = Some (trimName p)"
    using assms by (simp add: find_map_filter whitespaceOnly_iff)
  then have "trimName p \<in> set ?zs" using find_SomeD by fastforce
  moreover have "name (trimName p) = JStr []" using tp by simp
  ultimately have "JStr [] \<in> name ` set ?zs" by (metis imageI)
  then have "JStr [] \<in> name ` set (keepFirst ?zs)" by (simp add: names_keepFirst)
  then obtain r where r: "r \<in> set (keepFirst ?zs)" "name r = JStr []" by auto
  then have "find (\<lambda>q. name q = JStr []) ?zs = Some r" using keepFirst_find[of r ?zs] by simp
  then have "r = trimName p" using f by simp
  then show ?thesis using r(1) tp by simp
qed

text \<open>
  C9. A name that is not empty and consists of white space only passes the check for a
  missing or empty name, which comes before the trimming. When every name of the input is a
  text or missing, \<^verbatim>\<open>sanitizeParameters\<close> returns; whenever it returns, the first entry
  with such a name is among its personalities, its name now the empty string.
\<close>

theorem whitespace_name_survives:
  assumes "find (\<lambda>q. whitespaceOnly (name q)) (personalitiesGroup prm) = Some p"
  shows "((\<forall>q \<in> set (personalitiesGroup prm). textOrMissing (name q)) \<longrightarrow>
            (\<exists>out. sanitizeParameters toLowerCase prm = Inr out)) \<and>
         (\<forall>out. sanitizeParameters toLowerCase prm = Inr out \<longrightarrow>
            p\<lparr>name := JStr []\<rparr> \<in> set (personalities out))"
proof (intro conjI allI impI)
  assume "\<forall>q \<in> set (personalitiesGroup prm). textOrMissing (name q)"
  then have "sanitizePersonalities (personalitiesGroup prm) =
      Inr (keepFirst (map trimName (filter hasName (personalitiesGroup prm))))"
    by (rule sanitizePersonalities_total)
  then show "\<exists>out. sanitizeParameters toLowerCase prm = Inr out"
    using sanitizeParameters_result by blast
next
  fix out
  assume "sanitizeParameters toLowerCase prm = Inr out"
  then have "sanitizePersonalities (personalitiesGroup prm) = Inr (personalities out)"
    using sanitizeParameters_Inr by blast
  then have "personalities out =
      keepFirst (map trimName (filter hasName (personalitiesGroup prm)))"
    by (rule sanitizePersonalities_Inr)
  then show "p\<lparr>name := JStr []\<rparr> \<in> set (personalities out)"
    using first_whitespaceOnly_kept[OF assms] by simp
qed

theorem whitespace_name_survives_witness:
  "find (\<lambda>q. whitespaceOnly (name q))
     [\<lparr>name = JStr (str ''brave'')\<rparr>, \<lparr>name = JStr [0x00A0]\<rparr>, \<lparr>name = JStr (str '' '')\<rparr>]
     = Some \<lparr>name = JStr [0x00A0]\<rparr> \<and>
   list_all (\<lambda>q. textOrMissing (name q))
     [\<lparr>name = JStr (str ''brave'')\<rparr>, \<lparr>name = JStr [0x00A0]\<rparr>, \<lparr>name = JStr (str '' '')\<rparr>] \<and>
   sanitizeParameters toLowerCaseAscii
     \<lparr>personalitiesGroup =
        [\<lparr>name = JStr (str ''brave'')\<rparr>, \<lparr>name = JStr [0x00A0]\<rparr>, \<lparr>name = JStr (str '' '')\<rparr>],
      questionsGroup = ([] :: answer question list)\<rparr>
     = Inr \<lparr>personalities = [\<lparr>name = JStr (str ''brave'')\<rparr>, \<lparr>name = JStr []\<rparr>],
            questions = []\<rparr> \<and>
   \<lparr>name = JStr [0x00A0]\<rparr>\<lparr>name := JStr []\<rparr>
     \<in> set [\<lparr>name = JStr (str ''brave'')\<rparr>, \<lparr>name = JStr []\<rparr>]"
proof -
  define prm :: "(personality, answer question) rawParams" where
    "prm = \<lparr>personalitiesGroup =
        [\<lparr>name = JStr (str ''brave'')\<rparr>, \<lparr>name = JStr [0x00A0]\<rparr>, \<lparr>name = JStr (str '' '')\<rparr>],
      questionsGroup = []\<rparr>"
  have h1: "\<forall>q \<in> set (personalitiesGroup prm). textOrMissing (name q)"
    unfolding prm_def by code_simp
  have h2: "find (\<lambda>q. whitespaceOnly (name q)) (personalitiesGroup prm)
      = Some \<lparr>name = JStr [0x00A0]\<rparr>"
    unfolding prm_def by code_simp
  have e: "sanitizeParameters toLowerCaseAscii prm
     = Inr \<lparr>personalities = [\<lparr>name = JStr (str ''brave'')\<rparr>, \<lparr>name = JStr []\<rparr>],
            questions = []\<rparr>"
    unfolding prm_def by code_simp
  have "\<lparr>name = JStr [0x00A0]\<rparr>\<lparr>name := JStr []\<rparr>
      \<in> set [\<lparr>name = JStr (str ''brave'')\<rparr>, \<lparr>name = JStr []\<rparr>]"
    using whitespace_name_survives [OF h2, of toLowerCaseAscii] h1 e by auto
  then show ?thesis using h1 h2 e unfolding prm_def by (simp add: list_all_iff)
qed

section \<open>The result of sanitizing a token\<close>

lemma knownName_iff:
  "knownName toLowerCase ps v \<longleftrightarrow> (\<exists>p \<in> set ps. \<exists>s. name p = JStr s \<and> toLowerCase s = v)"
proof -
  have "(case name p of JStr s \<Rightarrow> toLowerCase s = v | _ \<Rightarrow> False) \<longleftrightarrow>
        (\<exists>s. name p = JStr s \<and> toLowerCase s = v)" for p :: "'a personality_scheme"
    by (cases "name p") auto
  then show ?thesis by (simp add: knownName_def list_ex_iff)
qed

lemma parseOption_cases:
  "(\<exists>n sc. value = n @ cu CHR ''='' # sc \<and> signedInt sc \<and> parseOption value = (n, sc)) \<or>
   parseOption value = (value, str ''1'')"
proof (cases "matchScore value")
  case True
  then obtain n sc where "value = n @ cu CHR ''='' # sc" "signedInt sc"
    using matchScore_iff by blast
  then show ?thesis using parseOption_score by blast
next
  case False
  then show ?thesis by (simp add: parseOption_plain)
qed

lemma signedInt_one: "signedInt (str ''1'')"
  by (simp add: digits1_def isDigit_def str_def cu_def)

lemma parseOption_parts:
  "\<exists>n sc. parseOption t = (n, sc) \<and> signedInt sc \<and> set n \<subseteq> set t"
proof (cases "parseOption t = (t, str ''1'')")
  case True
  then show ?thesis using signedInt_one by blast
next
  case False
  then obtain n sc where "t = n @ cu CHR ''='' # sc" "signedInt sc" "parseOption t = (n, sc)"
    using parseOption_cases[of t] by blast
  moreover from this have "set n \<subseteq> set t" by auto
  ultimately show ?thesis by blast
qed

lemma asciiOnly_subset: "asciiOnly s \<Longrightarrow> set t \<subseteq> set s \<Longrightarrow> asciiOnly t"
  by (auto simp: asciiOnly_def list_all_iff)

lemma asciiOnly_token_name: "asciiOnly value \<Longrightarrow> asciiOnly (trim (fst (parseOption value)))"
proof -
  assume a: "asciiOnly value"
  obtain n sc where "parseOption value = (n, sc)" "set n \<subseteq> set value"
    using parseOption_parts by blast
  then have "set (trim (fst (parseOption value))) \<subseteq> set value"
    using set_trim[of n] by simp
  then show ?thesis using a asciiOnly_subset by blast
qed

lemma isPersonalityNameValid_ascii:
  assumes "lowersAscii toLowerCase"
  shows "asciiNames ps \<Longrightarrow>
    isPersonalityNameValid toLowerCase ps v = isPersonalityNameValid toLowerCaseAscii ps v"
proof (induction ps)
  case Nil
  then show ?case by simp
next
  case (Cons p ps)
  have "callToLowerCase toLowerCase (name p) = callToLowerCase toLowerCaseAscii (name p)"
    using Cons.prems assms by (cases "name p") (auto simp: asciiNames_def lowersAscii_def)
  moreover have "asciiNames ps" using Cons.prems by (simp add: asciiNames_def)
  ultimately show ?case using Cons.IH by (simp split: sum.splits)
qed

lemma sanitizePersonalityOption_ascii:
  assumes "lowersAscii toLowerCase" "asciiNames ps" "asciiOnly value"
  shows "sanitizePersonalityOption toLowerCase ps value =
         sanitizePersonalityOption toLowerCaseAscii ps value"
proof -
  have "toLowerCase (trim (fst (parseOption value))) =
        toLowerCaseAscii (trim (fst (parseOption value)))"
    using assms(1) asciiOnly_token_name[OF assms(3)] by (simp add: lowersAscii_def)
  then show ?thesis
    by (simp add: sanitizePersonalityOption_def case_prod_beta
        isPersonalityNameValid_ascii[OF assms(1) assms(2)])
qed

lemma mapE_cong: "(\<And>x. x \<in> set xs \<Longrightarrow> f x = g x) \<Longrightarrow> mapE f xs = mapE g xs"
  by (induction xs) (auto split: sum.splits)

lemma split_subset: "t \<in> set (split sep s) \<Longrightarrow> set t \<subseteq> set s"
proof (induction s arbitrary: t)
  case Nil
  then show ?case by simp
next
  case (Cons c cs)
  obtain a as where sp: "split sep cs = a # as"
    by (cases "split sep cs") (auto simp: split_not_Nil)
  then have IH: "\<And>u. u \<in> set (a # as) \<Longrightarrow> set u \<subseteq> set cs" using Cons.IH by simp
  show ?case
  proof (cases "c = sep")
    case True
    then have "t = [] \<or> t \<in> set (a # as)" using Cons.prems sp by auto
    then show ?thesis using IH by auto
  next
    case False
    then have "t = c # a \<or> t \<in> set as" using Cons.prems sp by auto
    then show ?thesis using IH by fastforce
  qed
qed

lemma sanitizeOptionPersonalities_ascii:
  assumes "lowersAscii toLowerCase" "asciiNames ps" "asciiOnly s"
  shows "sanitizeOptionPersonalities toLowerCase ps (JStr s) =
         sanitizeOptionPersonalities toLowerCaseAscii ps (JStr s)"
proof -
  have "mapE (sanitizePersonalityOption toLowerCase ps) (split (cu CHR '','') s) =
        mapE (sanitizePersonalityOption toLowerCaseAscii ps) (split (cu CHR '','') s)"
  proof (rule mapE_cong)
    fix t assume "t \<in> set (split (cu CHR '','') s)"
    then have "asciiOnly t" using assms(3) asciiOnly_subset split_subset by blast
    then show "sanitizePersonalityOption toLowerCase ps t =
               sanitizePersonalityOption toLowerCaseAscii ps t"
      using assms(1) assms(2) by (rule sanitizePersonalityOption_ascii[rotated 2])
  qed
  then show ?thesis by (simp add: sanitizeOptionPersonalities_def)
qed

text \<open>
  C3. On a sanitized list of personalities \<^verbatim>\<open>sanitizePersonalityOption\<close> returns
  \<^verbatim>\<open>null\<close> if and only if the trimmed name of the token matches the name of no personality
  case-insensitively, that is, when the two are not equal once lower-cased; where
  lower-casing twice is lower-casing once, this is to say that the trimmed, lower-cased name
  of the token matches no name case-insensitively. Otherwise the function returns the
  trimmed, lower-cased name, an equals sign and the score. With the one personality
  \<^verbatim>\<open>brave\<close>, the token \<^verbatim>\<open>brave=2\<close> gives \<^verbatim>\<open>brave=2\<close>, \<^verbatim>\<open>Brave\<close> gives \<^verbatim>\<open>brave=1\<close>, and
  \<^verbatim>\<open>unknown=3\<close> gives \<^verbatim>\<open>null\<close>.
\<close>

theorem sanitizePersonalityOption_result:
  assumes "sanitizePersonalities raw = Inr ps"
  shows "(sanitizePersonalityOption toLowerCase ps value = Inr None \<longleftrightarrow>
            \<not> (\<exists>p \<in> set ps. \<exists>s. name p = JStr s \<and>
                  equalIgnoringCase toLowerCase s (trim (fst (parseOption value))))) \<and>
         ((\<forall>x. toLowerCase (toLowerCase x) = toLowerCase x) \<longrightarrow>
            (sanitizePersonalityOption toLowerCase ps value = Inr None \<longleftrightarrow>
               \<not> (\<exists>p \<in> set ps. \<exists>s. name p = JStr s \<and>
                     equalIgnoringCase toLowerCase s
                       (toLowerCase (trim (fst (parseOption value))))))) \<and>
         (sanitizePersonalityOption toLowerCase ps value \<noteq> Inr None \<longrightarrow>
            sanitizePersonalityOption toLowerCase ps value =
              Inr (Some (toLowerCase (trim (fst (parseOption value))) @ str ''='' @
                         snd (parseOption value)))) \<and>
         (lowersAscii toLowerCase \<longrightarrow>
            sanitizePersonalityOption toLowerCase [\<lparr>name = JStr (str ''brave'')\<rparr>] (str ''brave=2'')
              = Inr (Some (str ''brave=2'')) \<and>
            sanitizePersonalityOption toLowerCase [\<lparr>name = JStr (str ''brave'')\<rparr>] (str ''Brave'')
              = Inr (Some (str ''brave=1'')) \<and>
            sanitizePersonalityOption toLowerCase [\<lparr>name = JStr (str ''brave'')\<rparr>] (str ''unknown=3'')
              = Inr None)"
proof -
  have s: "namesAreStrings ps" using assms by (rule sanitizePersonalities_strings)
  let ?n = "trim (fst (parseOption value))"
  have k: "knownName toLowerCase ps (toLowerCase ?n) \<longleftrightarrow>
      (\<exists>p \<in> set ps. \<exists>s. name p = JStr s \<and> equalIgnoringCase toLowerCase s ?n)"
    by (simp add: knownName_iff equalIgnoringCase_def)
  have 1: "sanitizePersonalityOption toLowerCase ps value = Inr None \<longleftrightarrow>
            \<not> (\<exists>p \<in> set ps. \<exists>s. name p = JStr s \<and> equalIgnoringCase toLowerCase s ?n)"
    unfolding k[symmetric]
    by (simp add: sanitizePersonalityOption_strings[OF s] sanitizeToken_def Let_def)
  have 2: "sanitizePersonalityOption toLowerCase ps value = Inr None \<longleftrightarrow>
               \<not> (\<exists>p \<in> set ps. \<exists>s. name p = JStr s \<and>
                     equalIgnoringCase toLowerCase s (toLowerCase ?n))"
    if "\<forall>x. toLowerCase (toLowerCase x) = toLowerCase x"
    using 1 that by (simp add: equalIgnoringCase_def)
  have 3: "sanitizePersonalityOption toLowerCase ps value \<noteq> Inr None \<longrightarrow>
            sanitizePersonalityOption toLowerCase ps value =
              Inr (Some (toLowerCase ?n @ str ''='' @ snd (parseOption value)))"
    by (simp add: sanitizePersonalityOption_strings[OF s] sanitizeToken_def Let_def)
  have 4: "sanitizePersonalityOption toLowerCase [\<lparr>name = JStr (str ''brave'')\<rparr>] (str ''brave=2'')
              = Inr (Some (str ''brave=2'')) \<and>
            sanitizePersonalityOption toLowerCase [\<lparr>name = JStr (str ''brave'')\<rparr>] (str ''Brave'')
              = Inr (Some (str ''brave=1'')) \<and>
            sanitizePersonalityOption toLowerCase [\<lparr>name = JStr (str ''brave'')\<rparr>] (str ''unknown=3'')
              = Inr None"
    if l: "lowersAscii toLowerCase"
  proof -
    have n: "asciiNames [\<lparr>name = JStr (str ''brave'')\<rparr>]" by code_simp
    have a: "asciiOnly (str ''brave=2'')" "asciiOnly (str ''Brave'')" "asciiOnly (str ''unknown=3'')"
      by code_simp+
    have "sanitizePersonalityOption toLowerCaseAscii [\<lparr>name = JStr (str ''brave'')\<rparr>]
            (str ''brave=2'') = Inr (Some (str ''brave=2''))"
      by code_simp
    moreover have "sanitizePersonalityOption toLowerCaseAscii [\<lparr>name = JStr (str ''brave'')\<rparr>]
            (str ''Brave'') = Inr (Some (str ''brave=1''))"
      by code_simp
    moreover have "sanitizePersonalityOption toLowerCaseAscii [\<lparr>name = JStr (str ''brave'')\<rparr>]
            (str ''unknown=3'') = Inr None"
      by code_simp
    ultimately show ?thesis
      by (simp add: sanitizePersonalityOption_ascii[OF l n a(1)]
          sanitizePersonalityOption_ascii[OF l n a(2)]
          sanitizePersonalityOption_ascii[OF l n a(3)])
  qed
  show ?thesis using 1 2 3 4 by blast
qed

theorem sanitizePersonalityOption_result_witness:
  "sanitizePersonalities [\<lparr>name = JStr (str '' Brave '')\<rparr>] = Inr [\<lparr>name = JStr (str ''Brave'')\<rparr>] \<and>
   lowersAscii toLowerCaseAscii \<and>
   (\<exists>p \<in> set [\<lparr>name = JStr (str ''Brave'')\<rparr>]. \<exists>s. name p = JStr s \<and>
       equalIgnoringCase toLowerCaseAscii s (trim (fst (parseOption (str '' BRAVE =-2''))))) \<and>
   sanitizePersonalityOption toLowerCaseAscii [\<lparr>name = JStr (str ''Brave'')\<rparr>] (str '' BRAVE =-2'')
     = Inr (Some (str ''brave=-2'')) \<and>
   \<not> (\<exists>p \<in> set [\<lparr>name = JStr (str ''Brave'')\<rparr>]. \<exists>s. name p = JStr s \<and>
       equalIgnoringCase toLowerCaseAscii s (trim (fst (parseOption (str ''bravo''))))) \<and>
   sanitizePersonalityOption toLowerCaseAscii [\<lparr>name = JStr (str ''Brave'')\<rparr>] (str ''bravo'')
     = Inr None \<and>
   sanitizePersonalityOption toLowerCaseAscii [\<lparr>name = JStr (str ''brave'')\<rparr>] (str ''Brave'')
     = Inr (Some (str ''brave=1''))"
proof -
  have h: "sanitizePersonalities [\<lparr>name = JStr (str '' Brave '')\<rparr>] = Inr [\<lparr>name = JStr (str ''Brave'')\<rparr>]"
    by code_simp
  have a: "sanitizePersonalityOption toLowerCaseAscii [\<lparr>name = JStr (str ''Brave'')\<rparr>]
      (str '' BRAVE =-2'') = Inr (Some (str ''brave=-2''))"
    by code_simp
  have b: "sanitizePersonalityOption toLowerCaseAscii [\<lparr>name = JStr (str ''Brave'')\<rparr>]
      (str ''bravo'') = Inr None"
    by code_simp
  note l = lowersAscii_toLowerCaseAscii
  have "\<exists>p \<in> set [\<lparr>name = JStr (str ''Brave'')\<rparr>]. \<exists>s. name p = JStr s \<and>
       equalIgnoringCase toLowerCaseAscii s (trim (fst (parseOption (str '' BRAVE =-2''))))"
    using sanitizePersonalityOption_result [OF h, of toLowerCaseAscii "str '' BRAVE =-2''"] a
    by simp
  moreover have "\<not> (\<exists>p \<in> set [\<lparr>name = JStr (str ''Brave'')\<rparr>]. \<exists>s. name p = JStr s \<and>
       equalIgnoringCase toLowerCaseAscii s (trim (fst (parseOption (str ''bravo'')))))"
    using sanitizePersonalityOption_result [OF h, of toLowerCaseAscii "str ''bravo''"] b
    by simp
  moreover have "sanitizePersonalityOption toLowerCaseAscii [\<lparr>name = JStr (str ''brave'')\<rparr>]
      (str ''Brave'') = Inr (Some (str ''brave=1''))"
    using sanitizePersonalityOption_result [OF h, of toLowerCaseAscii "str ''bravo''"] l
    by blast
  ultimately show ?thesis using h a b l by blast
qed

text \<open>
  C8. On a sanitized list of personalities \<^verbatim>\<open>sanitizeOptionPersonalities\<close> throws for no
  value at all. For a value that is not a string it returns the empty string, and
  \<^verbatim>\<open>filterAnswers\<close> then drops the answer option.
\<close>

theorem sanitizeOptionPersonalities_never_raises:
  assumes "sanitizePersonalities raw = Inr ps"
  shows "(\<exists>r. sanitizeOptionPersonalities toLowerCase ps v = Inr r) \<and>
         ((\<forall>s. v \<noteq> JStr s) \<longrightarrow>
            sanitizeOptionPersonalities toLowerCase ps v = Inr [] \<and>
            (\<forall>a. personality a = v \<longrightarrow> filterAnswers toLowerCase ps [a] = Inr []))"
proof -
  have s: "namesAreStrings ps" using assms by (rule sanitizePersonalities_strings)
  have 1: "\<exists>r. sanitizeOptionPersonalities toLowerCase ps v = Inr r"
    using s by (rule sanitizeOptionPersonalities_total)
  have 2: "sanitizeOptionPersonalities toLowerCase ps v = Inr [] \<and>
            (\<forall>a. personality a = v \<longrightarrow> filterAnswers toLowerCase ps [a] = Inr [])"
    if "\<forall>s. v \<noteq> JStr s"
  proof -
    have n: "\<not> isString v" using that by (cases v) (auto simp: isString_def)
    then have e: "sanitizeOptionPersonalities toLowerCase ps v = Inr []"
      by (rule sanitizeOptionPersonalities_other)
    then have "filterAnswers toLowerCase ps [a] = Inr []"
      if "personality a = v" for a :: "'c answer_scheme"
      using that by (simp add: filterAnswers_def)
    then show ?thesis using e by blast
  qed
  show ?thesis using 1 2 by blast
qed

theorem sanitizeOptionPersonalities_never_raises_witness:
  "sanitizePersonalities [\<lparr>name = JStr (str ''brave'')\<rparr>] = Inr [\<lparr>name = JStr (str ''brave'')\<rparr>] \<and>
   (\<forall>s. JNum 7 \<noteq> JStr s) \<and>
   sanitizeOptionPersonalities toLowerCaseAscii [\<lparr>name = JStr (str ''brave'')\<rparr>] (JNum 7) = Inr [] \<and>
   filterAnswers toLowerCaseAscii [\<lparr>name = JStr (str ''brave'')\<rparr>]
     [\<lparr>text = JStr (str ''yes''), personality = JNum 7\<rparr>] = Inr []"
proof -
  have h: "sanitizePersonalities [\<lparr>name = JStr (str ''brave'')\<rparr>] = Inr [\<lparr>name = JStr (str ''brave'')\<rparr>]"
    by code_simp
  have n: "\<forall>s. JNum 7 \<noteq> JStr s" by simp
  have p: "personality \<lparr>text = JStr (str ''yes''), personality = JNum 7\<rparr> = JNum 7" by simp
  show ?thesis
    using sanitizeOptionPersonalities_never_raises [OF h, of toLowerCaseAscii "JNum 7"] h n p
    by blast
qed

section \<open>Canonical tokens\<close>

lemma signedInt_no_comma: "signedInt sc \<Longrightarrow> cu CHR '','' \<notin> set sc"
proof -
  assume "signedInt sc"
  then obtain ds where ds: "set ds \<subseteq> set (str ''0123456789'')" "sc = ds \<or> sc = cu CHR ''-'' # ds"
    using signedInt_iff by blast
  have "cu CHR '','' \<notin> set ds" using ds(1) comma_not_digit by blast
  then show ?thesis using ds(2) comma_not_minus by auto
qed

lemma sanitizeToken_Some:
  assumes "sanitizeToken toLowerCase ps t = Some tok"
  shows "\<exists>n sc. tok = toLowerCase (trim n) @ cu CHR ''='' # sc \<and> signedInt sc \<and> set n \<subseteq> set t \<and>
           knownName toLowerCase ps (toLowerCase (trim n))"
proof -
  obtain n sc where p: "parseOption t = (n, sc)" "signedInt sc" "set n \<subseteq> set t"
    using parseOption_parts by blast
  then show ?thesis
    using assms by (auto simp: sanitizeToken_def Let_def str_eq split: if_splits)
qed

lemma sanitizeToken_not_Nil: "sanitizeToken toLowerCase ps t = Some tok \<Longrightarrow> tok \<noteq> []"
  by (drule sanitizeToken_Some) auto

lemma sanitizeToken_no_comma:
  assumes "\<forall>x. cu CHR '','' \<notin> set x \<longrightarrow> cu CHR '','' \<notin> set (toLowerCase x)"
    and "sanitizeToken toLowerCase ps t = Some tok" "cu CHR '','' \<notin> set t"
  shows "cu CHR '','' \<notin> set tok"
proof -
  obtain n sc where d: "tok = toLowerCase (trim n) @ cu CHR ''='' # sc" "signedInt sc"
    "set n \<subseteq> set t"
    using sanitizeToken_Some[OF assms(2)] by blast
  have "cu CHR '','' \<notin> set (trim n)" using d(3) assms(3) set_trim by blast
  then have "cu CHR '','' \<notin> set (toLowerCase (trim n))" using assms(1) by blast
  moreover have "cu CHR '','' \<notin> set sc" using d(2) by (rule signedInt_no_comma)
  moreover have "cu CHR '','' \<noteq> cu CHR ''=''" by (simp add: cu_def)
  ultimately show ?thesis using d(1) by simp
qed

lemma sanitizeToken_canonical:
  assumes "lowerCaseLaws toLowerCase"
    and "sanitizeToken toLowerCase ps t = Some tok"
  shows "sanitizeToken toLowerCase ps tok = Some tok"
proof -
  obtain n sc where d: "tok = toLowerCase (trim n) @ cu CHR ''='' # sc" "signedInt sc"
    "knownName toLowerCase ps (toLowerCase (trim n))"
    using sanitizeToken_Some[OF assms(2)] by blast
  have p: "parseOption tok = (toLowerCase (trim n), sc)"
    unfolding d(1) using d(2) by (rule parseOption_score)
  have "trim (toLowerCase (trim n)) = toLowerCase (trim n)"
    using assms(1) trim_trim[of n] by (simp add: lowerCaseLaws_def)
  moreover have "toLowerCase (toLowerCase (trim n)) = toLowerCase (trim n)"
    using assms(1) by (simp add: lowerCaseLaws_def)
  ultimately show ?thesis using p d by (simp add: sanitizeToken_def Let_def str_eq)
qed

lemma dropNulls_map:
  "dropNulls (map f xs) = map (\<lambda>x. the (f x)) (filter (\<lambda>x. f x \<noteq> None) xs)"
proof (induction xs)
  case Nil
  then show ?case by simp
next
  case (Cons x xs)
  then show ?case by (cases "f x") auto
qed

lemma join_Nil_iff: "\<forall>t \<in> set ts. t \<noteq> [] \<Longrightarrow> join sep ts = [] \<longleftrightarrow> ts = []"
  by (induction sep ts rule: join.induct) auto

lemma validTokens_valid:
  assumes "namesAreStrings ps"
  shows "validTokens toLowerCase ps s =
     filter (\<lambda>t. sanitizeToken toLowerCase ps t \<noteq> None) (split (cu CHR '','') s)"
proof -
  have "(case sanitizePersonalityOption toLowerCase ps t of
           Inr (Some tok) \<Rightarrow> True
         | _ \<Rightarrow> False) \<longleftrightarrow>
        sanitizeToken toLowerCase ps t \<noteq> None" for t
    by (simp add: sanitizePersonalityOption_strings[OF assms] split: option.splits)
  then show ?thesis by (simp add: validTokens_def)
qed

lemma tokens_of_output:
  fixes ps :: "'a personality_scheme list" and s :: jsstring
    and toLowerCase :: "jsstring \<Rightarrow> jsstring"
  assumes "namesAreStrings ps"
  defines "toks \<equiv> dropNulls (map (sanitizeToken toLowerCase ps) (split (cu CHR '','') s))"
  shows "sanitizeOptionPersonalities toLowerCase ps (JStr s) = Inr (join (str '','') toks)"
    and "toks = map (\<lambda>t. the (sanitizeToken toLowerCase ps t)) (validTokens toLowerCase ps s)"
    and "join (str '','') toks = [] \<longleftrightarrow> toks = []"
    and "map (\<lambda>tok. Inr (Some tok)) toks =
         map (sanitizePersonalityOption toLowerCase ps) (validTokens toLowerCase ps s)"
proof -
  show "sanitizeOptionPersonalities toLowerCase ps (JStr s) = Inr (join (str '','') toks)"
    unfolding toks_def using assms(1) by (rule sanitizeOptionPersonalities_strings)
  show t: "toks = map (\<lambda>t. the (sanitizeToken toLowerCase ps t)) (validTokens toLowerCase ps s)"
    unfolding toks_def by (simp add: dropNulls_map validTokens_valid[OF assms(1)])
  have "\<forall>tok \<in> set toks. tok \<noteq> []"
    unfolding toks_def using sanitizeToken_not_Nil by (fastforce simp: dropNulls_map)
  then show "join (str '','') toks = [] \<longleftrightarrow> toks = []"
    by (rule join_Nil_iff)
  show "map (\<lambda>tok. Inr (Some tok)) toks =
         map (sanitizePersonalityOption toLowerCase ps) (validTokens toLowerCase ps s)"
    unfolding t
    by (auto simp: validTokens_valid[OF assms(1)] sanitizePersonalityOption_strings[OF assms(1)])
qed

lemma tokens_split:
  fixes ps :: "'a personality_scheme list" and s :: jsstring
    and toLowerCase :: "jsstring \<Rightarrow> jsstring"
  assumes "\<forall>x. cu CHR '','' \<notin> set x \<longrightarrow> cu CHR '','' \<notin> set (toLowerCase x)"
    and toks: "toks = dropNulls (map (sanitizeToken toLowerCase ps) (split (cu CHR '','') s))"
    and "toks \<noteq> []"
  shows "split (cu CHR '','') (join (str '','') toks) = toks"
proof -
  have "cu CHR '','' \<notin> set tok" if m: "tok \<in> set toks" for tok
  proof -
    have "tok \<in> (\<lambda>x. the (sanitizeToken toLowerCase ps x)) `
        {t \<in> set (split (cu CHR '','') s). sanitizeToken toLowerCase ps t \<noteq> None}"
      using m unfolding toks by (simp add: dropNulls_map)
    then obtain t where t: "t \<in> set (split (cu CHR '','') s)"
      "sanitizeToken toLowerCase ps t = Some tok"
      by auto
    have "cu CHR '','' \<notin> set t" using t(1) by (rule split_no_sep)
    then show ?thesis using sanitizeToken_no_comma[OF assms(1) t(2)] by blast
  qed
  then show ?thesis
    using assms(3) split_join[of toks "cu CHR '',''"] by (simp add: str_comma)
qed

lemma tokens_canonical:
  fixes ps :: "'a personality_scheme list" and s :: jsstring
    and toLowerCase :: "jsstring \<Rightarrow> jsstring"
  assumes "lowerCaseLaws toLowerCase"
    and toks: "toks = dropNulls (map (sanitizeToken toLowerCase ps) (split (cu CHR '','') s))"
  shows "map (sanitizeToken toLowerCase ps) toks = map Some toks"
proof -
  have "sanitizeToken toLowerCase ps tok = Some tok" if m: "tok \<in> set toks" for tok
  proof -
    have "tok \<in> (\<lambda>x. the (sanitizeToken toLowerCase ps x)) `
        {t \<in> set (split (cu CHR '','') s). sanitizeToken toLowerCase ps t \<noteq> None}"
      using m unfolding toks by (simp add: dropNulls_map)
    then obtain t where "sanitizeToken toLowerCase ps t = Some tok"
      by auto
    then show ?thesis using assms(1) by (rule sanitizeToken_canonical[rotated])
  qed
  then show ?thesis by simp
qed

section \<open>The sanitized personality string\<close>

text \<open>
  C7. \<^verbatim>\<open>sanitizeOptionPersonalities\<close> removes no duplicates. On a sanitized list of
  personalities it returns the canonical forms of the valid tokens of the string, one for
  each occurrence and in the order of the input, joined with commas (so the empty string
  when there is no valid token). Where lower-casing brings no comma into a string, splitting
  the result at the commas gives these canonical forms back. So, \<^verbatim>\<open>toLowerCase\<close> being what
  it is on ASCII strings, \<^verbatim>\<open>brave,x,Brave=2,brave\<close> becomes \<^verbatim>\<open>brave=1,brave=2,brave=1\<close>.
\<close>

theorem sanitizeOptionPersonalities_keeps_duplicates:
  assumes "sanitizePersonalities raw = Inr ps"
  shows "(\<exists>toks. sanitizeOptionPersonalities toLowerCase ps (JStr s) = Inr (join (str '','') toks) \<and>
           map (\<lambda>tok. Inr (Some tok)) toks =
             map (sanitizePersonalityOption toLowerCase ps) (validTokens toLowerCase ps s) \<and>
           (join (str '','') toks = [] \<longleftrightarrow> validTokens toLowerCase ps s = []) \<and>
           ((\<forall>x. cu CHR '','' \<notin> set x \<longrightarrow> cu CHR '','' \<notin> set (toLowerCase x)) \<and> toks \<noteq> [] \<longrightarrow>
              split (cu CHR '','') (join (str '','') toks) = toks)) \<and>
         (lowersAscii toLowerCase \<longrightarrow>
            sanitizeOptionPersonalities toLowerCase [\<lparr>name = JStr (str ''brave'')\<rparr>]
              (JStr (str ''brave,x,Brave=2,brave'')) = Inr (str ''brave=1,brave=2,brave=1''))"
proof -
  have n: "namesAreStrings ps" using assms by (rule sanitizePersonalities_strings)
  define toks where "toks = dropNulls (map (sanitizeToken toLowerCase ps) (split (cu CHR '','') s))"
  note T = tokens_of_output[OF n, of toLowerCase s, folded toks_def]
  have 1: "join (str '','') toks = [] \<longleftrightarrow> validTokens toLowerCase ps s = []"
    using T(3) T(2) by simp
  have 2: "split (cu CHR '','') (join (str '','') toks) = toks"
    if "(\<forall>x. cu CHR '','' \<notin> set x \<longrightarrow> cu CHR '','' \<notin> set (toLowerCase x)) \<and> toks \<noteq> []"
    using that tokens_split[of toLowerCase toks ps s] toks_def by blast
  have 3: "sanitizeOptionPersonalities toLowerCase [\<lparr>name = JStr (str ''brave'')\<rparr>]
              (JStr (str ''brave,x,Brave=2,brave'')) = Inr (str ''brave=1,brave=2,brave=1'')"
    if l: "lowersAscii toLowerCase"
  proof -
    have a: "asciiNames [\<lparr>name = JStr (str ''brave'')\<rparr>]" by code_simp
    have b: "asciiOnly (str ''brave,x,Brave=2,brave'')" by code_simp
    have "sanitizeOptionPersonalities toLowerCaseAscii [\<lparr>name = JStr (str ''brave'')\<rparr>]
              (JStr (str ''brave,x,Brave=2,brave'')) = Inr (str ''brave=1,brave=2,brave=1'')"
      by code_simp
    then show ?thesis by (simp add: sanitizeOptionPersonalities_ascii[OF l a b])
  qed
  show ?thesis using T(1) T(4) 1 2 3 by blast
qed

theorem sanitizeOptionPersonalities_keeps_duplicates_witness:
  "sanitizePersonalities [\<lparr>name = JStr (str ''Kind'')\<rparr>] = Inr [\<lparr>name = JStr (str ''Kind'')\<rparr>] \<and>
   lowersAscii toLowerCaseAscii \<and>
   validTokens toLowerCaseAscii [\<lparr>name = JStr (str ''Kind'')\<rparr>] (str ''kind=2,mean, KIND ,kind=2'')
     = [str ''kind=2'', str '' KIND '', str ''kind=2''] \<and>
   (\<exists>toks. sanitizeOptionPersonalities toLowerCaseAscii [\<lparr>name = JStr (str ''Kind'')\<rparr>]
              (JStr (str ''kind=2,mean, KIND ,kind=2'')) = Inr (join (str '','') toks) \<and>
        map (\<lambda>tok. Inr (Some tok)) toks =
        [Inr (Some (str ''kind=2'')) :: error + jsstring option, Inr (Some (str ''kind=1'')),
         Inr (Some (str ''kind=2''))]) \<and>
   sanitizeOptionPersonalities toLowerCaseAscii [\<lparr>name = JStr (str ''brave'')\<rparr>]
     (JStr (str ''brave,x,Brave=2,brave'')) = Inr (str ''brave=1,brave=2,brave=1'')"
proof -
  have h: "sanitizePersonalities [\<lparr>name = JStr (str ''Kind'')\<rparr>] = Inr [\<lparr>name = JStr (str ''Kind'')\<rparr>]"
    by code_simp
  have v: "validTokens toLowerCaseAscii [\<lparr>name = JStr (str ''Kind'')\<rparr>]
      (str ''kind=2,mean, KIND ,kind=2'') = [str ''kind=2'', str '' KIND '', str ''kind=2'']"
    by code_simp
  have m: "map (sanitizePersonalityOption toLowerCaseAscii [\<lparr>name = JStr (str ''Kind'')\<rparr>])
        [str ''kind=2'', str '' KIND '', str ''kind=2'']
      = [Inr (Some (str ''kind=2'')) :: error + jsstring option, Inr (Some (str ''kind=1'')),
         Inr (Some (str ''kind=2''))]"
    by code_simp
  note l = lowersAscii_toLowerCaseAscii
  note R = sanitizeOptionPersonalities_keeps_duplicates
    [OF h, of toLowerCaseAscii "str ''kind=2,mean, KIND ,kind=2''"]
  from R obtain toks where
    t: "sanitizeOptionPersonalities toLowerCaseAscii [\<lparr>name = JStr (str ''Kind'')\<rparr>]
          (JStr (str ''kind=2,mean, KIND ,kind=2'')) = Inr (join (str '','') toks)"
       "map (\<lambda>tok. Inr (Some tok)) toks =
          map (sanitizePersonalityOption toLowerCaseAscii [\<lparr>name = JStr (str ''Kind'')\<rparr>])
            (validTokens toLowerCaseAscii [\<lparr>name = JStr (str ''Kind'')\<rparr>]
               (str ''kind=2,mean, KIND ,kind=2''))"
    by (elim conjE exE)
  have "map (\<lambda>tok. Inr (Some tok)) toks =
        [Inr (Some (str ''kind=2'')) :: error + jsstring option, Inr (Some (str ''kind=1'')),
         Inr (Some (str ''kind=2''))]"
    using t(2) unfolding v m .
  then have x: "\<exists>toks. sanitizeOptionPersonalities toLowerCaseAscii [\<lparr>name = JStr (str ''Kind'')\<rparr>]
              (JStr (str ''kind=2,mean, KIND ,kind=2'')) = Inr (join (str '','') toks) \<and>
        map (\<lambda>tok. Inr (Some tok)) toks =
        [Inr (Some (str ''kind=2'')) :: error + jsstring option, Inr (Some (str ''kind=1'')),
         Inr (Some (str ''kind=2''))]"
    using t(1) by (intro exI conjI)
  have y: "sanitizeOptionPersonalities toLowerCaseAscii [\<lparr>name = JStr (str ''brave'')\<rparr>]
     (JStr (str ''brave,x,Brave=2,brave'')) = Inr (str ''brave=1,brave=2,brave=1'')"
    using conjunct2[OF R] l by (rule mp)
  show ?thesis by (intro conjI h l v x y)
qed

lemma sanitizeToken_Nil:
  assumes "\<forall>s. toLowerCase s = [] \<longleftrightarrow> s = []"
  shows "sanitizeToken toLowerCase ps [] =
    (if \<exists>p \<in> set ps. name p = JStr [] then Some (str ''=1'') else None)"
proof -
  have "parseOption [] = ([], str ''1'')" by (simp add: parseOption_def)
  moreover have "trim [] = []" by (simp add: trim_def)
  moreover have "toLowerCase [] = []" using assms by simp
  moreover have "knownName toLowerCase ps [] \<longleftrightarrow> (\<exists>p \<in> set ps. name p = JStr [])"
    using assms by (simp add: knownName_iff)
  moreover have "str ''='' @ str ''1'' = str ''=1''" by (simp add: str_def)
  ultimately show ?thesis by (simp add: sanitizeToken_def)
qed

text \<open>
  C10, as the code has it. Let \<^verbatim>\<open>toLowerCase\<close> be as it is known to be: lower-casing
  twice is lower-casing once, a string without white space at its ends has none after
  lower-casing, only the empty string gives the empty string, and a string without a comma
  gives one without a comma. Then, on a sanitized list of personalities, sanitizing the
  result of \<^verbatim>\<open>sanitizeOptionPersonalities\<close> once more gives the same string when that result
  is not empty or no personality has the empty name; when the result is empty and a
  personality has the empty name, the second application returns \<^verbatim>\<open>=1\<close>.
\<close>

theorem sanitizeOptionPersonalities_idempotent:
  assumes "lowerCaseLaws toLowerCase"
    and "sanitizePersonalities raw = Inr ps"
    and "sanitizeOptionPersonalities toLowerCase ps (JStr s) = Inr r"
  shows "(r \<noteq> [] \<or> (\<forall>p \<in> set ps. name p \<noteq> JStr []) \<longrightarrow>
            sanitizeOptionPersonalities toLowerCase ps (JStr r) = Inr r) \<and>
         (r = [] \<and> (\<exists>p \<in> set ps. name p = JStr []) \<longrightarrow>
            sanitizeOptionPersonalities toLowerCase ps (JStr r) = Inr (str ''=1''))"
proof -
  have n: "namesAreStrings ps" using assms(2) by (rule sanitizePersonalities_strings)
  have l4: "\<forall>s. toLowerCase s = [] \<longleftrightarrow> s = []"
    and l5: "\<forall>x. cu CHR '','' \<notin> set x \<longrightarrow> cu CHR '','' \<notin> set (toLowerCase x)"
    using assms(1) by (simp_all add: lowerCaseLaws_def)
  define toks where "toks = dropNulls (map (sanitizeToken toLowerCase ps) (split (cu CHR '','') s))"
  note T = tokens_of_output[OF n, of toLowerCase s, folded toks_def]
  have r: "r = join (str '','') toks" using T(1) assms(3) by simp
  have e: "sanitizeOptionPersonalities toLowerCase ps (JStr []) =
      Inr (if \<exists>p \<in> set ps. name p = JStr [] then str ''=1'' else [])"
    by (simp add: sanitizeOptionPersonalities_strings[OF n] sanitizeToken_Nil[OF l4])
  show ?thesis
  proof (cases "toks = []")
    case True
    then have "r = []" using r by simp
    then show ?thesis using e by auto
  next
    case False
    then have ne: "r \<noteq> []" using T(3) r by simp
    have sp: "split (cu CHR '','') (join (str '','') toks) = toks"
      using tokens_split[OF l5 toks_def] False by blast
    have m: "map (sanitizeToken toLowerCase ps) toks = map Some toks"
      using tokens_canonical[OF assms(1) toks_def] .
    have d: "dropNulls (map Some toks) = toks" by (induction toks) auto
    have "sanitizeOptionPersonalities toLowerCase ps (JStr r) =
        Inr (join (str '','') (dropNulls (map (sanitizeToken toLowerCase ps) (split (cu CHR '','') r))))"
      using n by (rule sanitizeOptionPersonalities_strings)
    also have "\<dots> = Inr r" by (simp only: r sp m d)
    finally have "sanitizeOptionPersonalities toLowerCase ps (JStr r) = Inr r" .
    then show ?thesis using ne by simp
  qed
qed

theorem sanitizeOptionPersonalities_idempotent_witness:
  "lowerCaseLaws toLowerCaseAscii \<and>
   sanitizePersonalities [\<lparr>name = JStr (str ''Kind'')\<rparr>, \<lparr>name = JStr [0x00A0]\<rparr>]
     = Inr [\<lparr>name = JStr (str ''Kind'')\<rparr>, \<lparr>name = JStr []\<rparr>] \<and>
   sanitizeOptionPersonalities toLowerCaseAscii [\<lparr>name = JStr (str ''Kind'')\<rparr>, \<lparr>name = JStr []\<rparr>]
     (JStr (str '' KIND =-3,mean,kind'')) = Inr (str ''kind=-3,kind=1'') \<and>
   sanitizeOptionPersonalities toLowerCaseAscii [\<lparr>name = JStr (str ''Kind'')\<rparr>, \<lparr>name = JStr []\<rparr>]
     (JStr (str ''kind=-3,kind=1'')) = Inr (str ''kind=-3,kind=1'') \<and>
   sanitizeOptionPersonalities toLowerCaseAscii [\<lparr>name = JStr (str ''Kind'')\<rparr>, \<lparr>name = JStr []\<rparr>]
     (JStr (str ''mean'')) = Inr [] \<and>
   sanitizeOptionPersonalities toLowerCaseAscii [\<lparr>name = JStr (str ''Kind'')\<rparr>, \<lparr>name = JStr []\<rparr>]
     (JStr []) = Inr (str ''=1'')"
proof -
  note l = lowerCaseLaws_toLowerCaseAscii
  have h: "sanitizePersonalities [\<lparr>name = JStr (str ''Kind'')\<rparr>, \<lparr>name = JStr [0x00A0]\<rparr>]
     = Inr [\<lparr>name = JStr (str ''Kind'')\<rparr>, \<lparr>name = JStr []\<rparr>]"
    by code_simp
  have e: "sanitizeOptionPersonalities toLowerCaseAscii
      [\<lparr>name = JStr (str ''Kind'')\<rparr>, \<lparr>name = JStr []\<rparr>]
      (JStr (str '' KIND =-3,mean,kind'')) = Inr (str ''kind=-3,kind=1'')"
    by code_simp
  have f: "sanitizeOptionPersonalities toLowerCaseAscii
      [\<lparr>name = JStr (str ''Kind'')\<rparr>, \<lparr>name = JStr []\<rparr>] (JStr (str ''mean'')) = Inr []"
    by code_simp
  have ne: "str ''kind=-3,kind=1'' \<noteq> []" by (simp add: str_def)
  have 1: "sanitizeOptionPersonalities toLowerCaseAscii
      [\<lparr>name = JStr (str ''Kind'')\<rparr>, \<lparr>name = JStr []\<rparr>]
      (JStr (str ''kind=-3,kind=1'')) = Inr (str ''kind=-3,kind=1'')"
    using sanitizeOptionPersonalities_idempotent [OF l h e] ne by blast
  have 2: "sanitizeOptionPersonalities toLowerCaseAscii
      [\<lparr>name = JStr (str ''Kind'')\<rparr>, \<lparr>name = JStr []\<rparr>] (JStr []) = Inr (str ''=1'')"
    using sanitizeOptionPersonalities_idempotent [OF l h f] by simp
  show ?thesis using l h e f 1 2 by blast
qed

text \<open>
  C10. A name of white space only leaves a personality with the empty name. Then the empty
  result for \<^verbatim>\<open>x\<close> is no fixed point: the empty string has one token, the empty one, which
  names that personality, and the result is \<^verbatim>\<open>=1\<close>.
\<close>

theorem sanitizeOptionPersonalities_not_idempotent_counterexample:
  "sanitizePersonalities [\<lparr>name = JStr (str '' '')\<rparr>] = Inr [\<lparr>name = JStr []\<rparr>] \<and>
   sanitizeOptionPersonalities toLowerCaseAscii [\<lparr>name = JStr []\<rparr>] (JStr (str ''x'')) = Inr [] \<and>
   sanitizeOptionPersonalities toLowerCaseAscii [\<lparr>name = JStr []\<rparr>] (JStr []) = Inr (str ''=1'')"
  by code_simp

section \<open>The sanitized questions\<close>

lemma survives_iff_result:
  assumes "namesAreStrings ps"
  shows "survives toLowerCase ps a \<longleftrightarrow> sanitizeOptionPersonalities toLowerCase ps (personality a) \<noteq> Inr []"
  by (simp add: survives_def sanitizeOptionPersonalities_sanitizedString[OF assms])

lemma survives_iff_tokens:
  assumes "namesAreStrings ps"
  shows "survives toLowerCase ps a \<longleftrightarrow>
     (\<exists>s. personality a = JStr s \<and>
          (\<exists>t \<in> set (split (cu CHR '','') s). \<exists>tok. sanitizePersonalityOption toLowerCase ps t = Inr (Some tok)))"
proof (cases "isString (personality a)")
  case True
  then obtain s where s: "personality a = JStr s"
    by (cases "personality a") (auto simp: isString_def)
  define toks where "toks = dropNulls (map (sanitizeToken toLowerCase ps) (split (cu CHR '','') s))"
  note T = tokens_of_output[OF assms, of toLowerCase s, folded toks_def]
  have "survives toLowerCase ps a \<longleftrightarrow> toks \<noteq> []"
    using T(1) T(3) s by (simp add: survives_iff_result[OF assms])
  also have "\<dots> \<longleftrightarrow> validTokens toLowerCase ps s \<noteq> []" using T(2) by simp
  also have "\<dots> \<longleftrightarrow>
      (\<exists>t \<in> set (split (cu CHR '','') s). \<exists>tok. sanitizePersonalityOption toLowerCase ps t = Inr (Some tok))"
    by (auto simp: validTokens_valid[OF assms] filter_empty_conv
        sanitizePersonalityOption_strings[OF assms])
  finally show ?thesis using s by simp
next
  case False
  then have "sanitizeOptionPersonalities toLowerCase ps (personality a) = Inr []"
    by (rule sanitizeOptionPersonalities_other)
  moreover have "\<nexists>s. personality a = JStr s" using False by (auto simp: isString_def)
  ultimately show ?thesis by (simp add: survives_iff_result[OF assms])
qed

text \<open>
  C4. With the personalities that the personality pass returns, \<^verbatim>\<open>sanitizeParameters\<close>
  returns the questions in their order, each with exactly those of its answer options whose
  sanitized personality string is not empty, and without exactly those questions that have
  no such answer option. The sanitized string of an option is not empty exactly when its
  personality field is a string with at least one valid token; a question all of whose
  options have no valid token is dropped.
\<close>

theorem sanitizeParameters_questions:
  assumes "sanitizePersonalities (personalitiesGroup prm) = Inr ps"
  shows "sanitizeParameters toLowerCase prm =
           Inr \<lparr>personalities = ps,
                questions =
                  map (\<lambda>q. q\<lparr>answers := map (specAnswer toLowerCase ps) (filter (survives toLowerCase ps) (answers q))\<rparr>)
                      (filter (\<lambda>q. \<exists>a \<in> set (answers q). survives toLowerCase ps a) (questionsGroup prm))\<rparr> \<and>
         (\<forall>a. survives toLowerCase ps a \<longleftrightarrow> sanitizeOptionPersonalities toLowerCase ps (personality a) \<noteq> Inr []) \<and>
         (\<forall>a. survives toLowerCase ps a \<longleftrightarrow>
               (\<exists>s. personality a = JStr s \<and>
                    (\<exists>t \<in> set (split (cu CHR '','') s). \<exists>tok. sanitizePersonalityOption toLowerCase ps t = Inr (Some tok)))) \<and>
         (\<forall>q. (\<forall>a \<in> set (answers q). \<not> survives toLowerCase ps a) \<longrightarrow> sanitizeQuestions toLowerCase ps [q] = Inr [])"
proof -
  have n: "namesAreStrings ps" using assms by (rule sanitizePersonalities_strings)
  have 1: "sanitizeParameters toLowerCase prm =
           Inr \<lparr>personalities = ps,
                questions =
                  map (\<lambda>q. q\<lparr>answers := map (specAnswer toLowerCase ps) (filter (survives toLowerCase ps) (answers q))\<rparr>)
                      (filter (\<lambda>q. \<exists>a \<in> set (answers q). survives toLowerCase ps a) (questionsGroup prm))\<rparr>"
    using sanitizeParameters_result[OF assms] by (simp add: specQuestions_def)
  have 2: "\<forall>a. survives toLowerCase ps a \<longleftrightarrow> sanitizeOptionPersonalities toLowerCase ps (personality a) \<noteq> Inr []"
    using survives_iff_result[OF n] by blast
  have 3: "\<forall>a. survives toLowerCase ps a \<longleftrightarrow>
               (\<exists>s. personality a = JStr s \<and>
                    (\<exists>t \<in> set (split (cu CHR '','') s). \<exists>tok. sanitizePersonalityOption toLowerCase ps t = Inr (Some tok)))"
    using survives_iff_tokens[OF n] by blast
  have 4: "\<forall>q. (\<forall>a \<in> set (answers q). \<not> survives toLowerCase ps a) \<longrightarrow> sanitizeQuestions toLowerCase ps [q] = Inr []"
    by (simp add: sanitizeQuestions_strings[OF n] specQuestions_def)
  show ?thesis using 1 2 3 4 by blast
qed

theorem sanitizeParameters_questions_witness:
  "sanitizePersonalities [\<lparr>name = JStr (str ''Brave'')\<rparr>] = Inr [\<lparr>name = JStr (str ''Brave'')\<rparr>] \<and>
   sanitizeParameters toLowerCaseAscii
     \<lparr>personalitiesGroup = [\<lparr>name = JStr (str ''Brave'')\<rparr>],
      questionsGroup =
        [\<lparr>answers = [\<lparr>text = JStr (str ''a''), personality = JStr (str ''brave=2,shy'')\<rparr>,
                     \<lparr>text = JStr (str ''b''), personality = JStr (str ''shy'')\<rparr>]\<rparr>,
         \<lparr>answers = [\<lparr>text = JStr (str ''c''), personality = JStr (str ''shy=1'')\<rparr>,
                     \<lparr>text = JStr (str ''d''), personality = JUndefined\<rparr>]\<rparr>]\<rparr>
   = Inr \<lparr>personalities = [\<lparr>name = JStr (str ''Brave'')\<rparr>],
          questions = [\<lparr>answers = [\<lparr>text = JStr (str ''a''), personality = JStr (str ''brave=2'')\<rparr>]\<rparr>]\<rparr> \<and>
   list_all (\<lambda>a. \<not> survives toLowerCaseAscii [\<lparr>name = JStr (str ''Brave'')\<rparr>] a)
     [\<lparr>text = JStr (str ''c''), personality = JStr (str ''shy=1'')\<rparr>,
      \<lparr>text = JStr (str ''d''), personality = JUndefined\<rparr>] \<and>
   sanitizeQuestions toLowerCaseAscii [\<lparr>name = JStr (str ''Brave'')\<rparr>]
     [\<lparr>answers = [\<lparr>text = JStr (str ''c''), personality = JStr (str ''shy=1'')\<rparr>,
                  \<lparr>text = JStr (str ''d''), personality = JUndefined\<rparr>]\<rparr>] = Inr []"
proof -
  define prm :: "(personality, answer question) rawParams" where
    "prm = \<lparr>personalitiesGroup = [\<lparr>name = JStr (str ''Brave'')\<rparr>],
      questionsGroup =
        [\<lparr>answers = [\<lparr>text = JStr (str ''a''), personality = JStr (str ''brave=2,shy'')\<rparr>,
                     \<lparr>text = JStr (str ''b''), personality = JStr (str ''shy'')\<rparr>]\<rparr>,
         \<lparr>answers = [\<lparr>text = JStr (str ''c''), personality = JStr (str ''shy=1'')\<rparr>,
                     \<lparr>text = JStr (str ''d''), personality = JUndefined\<rparr>]\<rparr>]\<rparr>"
  define q :: "answer question" where
    "q = \<lparr>answers = [\<lparr>text = JStr (str ''c''), personality = JStr (str ''shy=1'')\<rparr>,
                     \<lparr>text = JStr (str ''d''), personality = JUndefined\<rparr>]\<rparr>"
  have h0: "sanitizePersonalities [\<lparr>name = JStr (str ''Brave'')\<rparr>] = Inr [\<lparr>name = JStr (str ''Brave'')\<rparr>]"
    by code_simp
  then have h: "sanitizePersonalities (personalitiesGroup prm) = Inr [\<lparr>name = JStr (str ''Brave'')\<rparr>]"
    by (simp add: prm_def)
  have e: "map (\<lambda>q. q\<lparr>answers := map (specAnswer toLowerCaseAscii [\<lparr>name = JStr (str ''Brave'')\<rparr>])
                                    (filter (survives toLowerCaseAscii [\<lparr>name = JStr (str ''Brave'')\<rparr>]) (answers q))\<rparr>)
               (filter (\<lambda>q. \<exists>a \<in> set (answers q). survives toLowerCaseAscii [\<lparr>name = JStr (str ''Brave'')\<rparr>] a)
                  (questionsGroup prm))
           = [\<lparr>answers = [\<lparr>text = JStr (str ''a''), personality = JStr (str ''brave=2'')\<rparr>]\<rparr>]"
    unfolding prm_def by code_simp
  have s: "\<forall>a \<in> set (answers q). \<not> survives toLowerCaseAscii [\<lparr>name = JStr (str ''Brave'')\<rparr>] a"
    unfolding q_def by code_simp
  note R = sanitizeParameters_questions [OF h, of toLowerCaseAscii]
  have 1: "sanitizeParameters toLowerCaseAscii prm = Inr \<lparr>personalities = [\<lparr>name = JStr (str ''Brave'')\<rparr>],
          questions = [\<lparr>answers = [\<lparr>text = JStr (str ''a''), personality = JStr (str ''brave=2'')\<rparr>]\<rparr>]\<rparr>"
    using conjunct1[OF R, unfolded e] .
  have 2: "sanitizeQuestions toLowerCaseAscii [\<lparr>name = JStr (str ''Brave'')\<rparr>] [q] = Inr []"
    using R s by blast
  show ?thesis using h0 1 s 2 unfolding prm_def q_def by (simp add: list_all_iff)
qed

text \<open>
  C6. An answer option whose text is the empty string survives with the empty text: the
  operator \<^verbatim>\<open>??\<close> replaces \<^verbatim>\<open>undefined\<close> and \<^verbatim>\<open>null\<close> only.
\<close>

theorem blank_text_counterexample:
  "sanitizeParameters toLowerCaseAscii
     \<lparr>personalitiesGroup = [\<lparr>name = JStr (str ''brave'')\<rparr>],
      questionsGroup = [\<lparr>answers = [\<lparr>text = JStr [], personality = JStr (str ''brave'')\<rparr>]\<rparr>]\<rparr>
   = Inr \<lparr>personalities = [\<lparr>name = JStr (str ''brave'')\<rparr>],
          questions = [\<lparr>answers = [\<lparr>text = JStr [], personality = JStr (str ''brave=1'')\<rparr>]\<rparr>]\<rparr>"
  by code_simp

text \<open>
  C6, as the code has it. Every surviving answer option is an answer option of the input
  with a new personality string and this text: the placeholder, which is not empty, when the
  text of the input was missing (\<^verbatim>\<open>undefined\<close> or \<^verbatim>\<open>null\<close>), and the text of the input
  otherwise.
\<close>

theorem missing_text_defaulted:
  assumes "sanitizeParameters toLowerCase prm = Inr out"
  shows "(\<forall>q' \<in> set (questions out). \<forall>a' \<in> set (answers q').
            \<exists>q \<in> set (questionsGroup prm). \<exists>a \<in> set (answers q).
              a' = a\<lparr>text := text a', personality := personality a'\<rparr> \<and>
              (text a = JUndefined \<or> text a = JNull \<longrightarrow> text a' = JStr placeholder) \<and>
              (text a \<noteq> JUndefined \<and> text a \<noteq> JNull \<longrightarrow> text a' = text a)) \<and>
         (\<forall>q' \<in> set (questions out). \<forall>a' \<in> set (answers q').
            text a' \<noteq> JUndefined \<and> text a' \<noteq> JNull) \<and>
         placeholder \<noteq> []"
proof -
  define ps where "ps = personalities out"
  have qs: "questions out = specQuestions toLowerCase ps (questionsGroup prm)"
    using sanitizeParameters_Inr[OF assms] by (simp add: ps_def)
  have "\<exists>q \<in> set (questionsGroup prm). \<exists>a \<in> set (answers q).
              a' = a\<lparr>text := text a', personality := personality a'\<rparr> \<and>
              (text a = JUndefined \<or> text a = JNull \<longrightarrow> text a' = JStr placeholder) \<and>
              (text a \<noteq> JUndefined \<and> text a \<noteq> JNull \<longrightarrow> text a' = text a)"
    if qq: "q' \<in> set (questions out)" and aa: "a' \<in> set (answers q')" for q' a'
  proof -
    have "q' \<in> (\<lambda>q. q\<lparr>answers := map (specAnswer toLowerCase ps) (filter (survives toLowerCase ps) (answers q))\<rparr>) `
        set (filter (\<lambda>q. \<exists>a \<in> set (answers q). survives toLowerCase ps a) (questionsGroup prm))"
      using qq unfolding qs specQuestions_def by simp
    then obtain q where q: "q \<in> set (questionsGroup prm)"
      "q' = q\<lparr>answers := map (specAnswer toLowerCase ps) (filter (survives toLowerCase ps) (answers q))\<rparr>"
      by auto
    then obtain a where a: "a \<in> set (answers q)" "a' = specAnswer toLowerCase ps a"
      using aa by auto
    have "a' = a\<lparr>text := text a', personality := personality a'\<rparr>"
      using a(2) by (simp add: specAnswer_def)
    moreover have "text a = JUndefined \<or> text a = JNull \<longrightarrow> text a' = JStr placeholder"
      using a(2) by (simp add: specAnswer_def isMissing_def)
    moreover have "text a \<noteq> JUndefined \<and> text a \<noteq> JNull \<longrightarrow> text a' = text a"
      using a(2) by (simp add: specAnswer_def isMissing_def)
    ultimately show ?thesis using q(1) a(1) by blast
  qed
  note main = this
  have "text a' \<noteq> JUndefined \<and> text a' \<noteq> JNull"
    if qq: "q' \<in> set (questions out)" and aa: "a' \<in> set (answers q')" for q' a'
  proof -
    from main[OF qq aa] obtain v where
      "v = JUndefined \<or> v = JNull \<longrightarrow> text a' = JStr placeholder"
      "v \<noteq> JUndefined \<and> v \<noteq> JNull \<longrightarrow> text a' = v"
      by blast
    then show ?thesis by (cases "v = JUndefined \<or> v = JNull") auto
  qed
  moreover have "placeholder \<noteq> []" by (simp add: placeholder_def)
  ultimately show ?thesis using main by blast
qed

theorem missing_text_defaulted_witness:
  "sanitizeParameters toLowerCaseAscii
     \<lparr>personalitiesGroup = [\<lparr>name = JStr (str ''brave'')\<rparr>],
      questionsGroup = [\<lparr>answers = [\<lparr>text = JUndefined, personality = JStr (str ''brave'')\<rparr>]\<rparr>]\<rparr>
   = Inr \<lparr>personalities = [\<lparr>name = JStr (str ''brave'')\<rparr>],
          questions = [\<lparr>answers = [\<lparr>text = JStr placeholder, personality = JStr (str ''brave=1'')\<rparr>]\<rparr>]\<rparr> \<and>
   placeholder \<noteq> []"
proof -
  define prm :: "(personality, answer question) rawParams" where
    "prm = \<lparr>personalitiesGroup = [\<lparr>name = JStr (str ''brave'')\<rparr>],
      questionsGroup = [\<lparr>answers = [\<lparr>text = JUndefined, personality = JStr (str ''brave'')\<rparr>]\<rparr>]\<rparr>"
  define out :: "(personality, answer question) params" where
    "out = \<lparr>personalities = [\<lparr>name = JStr (str ''brave'')\<rparr>],
          questions = [\<lparr>answers = [\<lparr>text = JStr [0x3164],
                                     personality = JStr (str ''brave=1'')\<rparr>]\<rparr>]\<rparr>"
  have out: "sanitizeParameters toLowerCaseAscii prm = Inr out"
    unfolding prm_def out_def by code_simp
  have "\<forall>q' \<in> set (questions out). \<forall>a' \<in> set (answers q').
            \<exists>q \<in> set (questionsGroup prm). \<exists>a \<in> set (answers q).
              a' = a\<lparr>text := text a', personality := personality a'\<rparr> \<and>
              (text a = JUndefined \<or> text a = JNull \<longrightarrow> text a' = JStr placeholder) \<and>
              (text a \<noteq> JUndefined \<and> text a \<noteq> JNull \<longrightarrow> text a' = text a)"
    and p: "placeholder \<noteq> []"
    using missing_text_defaulted [OF out] by blast+
  then have "JStr [0x3164] = JStr placeholder"
    unfolding out_def prm_def by simp
  then show ?thesis using out p unfolding prm_def out_def by simp
qed


end
